theory Spec2Isabelle
  imports Main
begin

section \<open>JavaScript values and strings\<close>

text \<open>
  The server handles JSON documents of the upstream platform: REST order objects, the
  lines of a bulk export, note attributes. A JSON value is a \<open>json\<close>; a JavaScript
  value that may also be \<open>undefined\<close> is a \<open>json option\<close>, with \<open>None\<close> for
  \<open>undefined\<close>. An object keeps its properties in order, keys distinct (as
  \<open>JSON.parse\<close> builds it). Numbers are the integers. Strings are lists of
  \<open>char\<close>; case conversion is the one of the ASCII letters.
\<close>

datatype json =
    JNull
  | JBool bool
  | JNum int
  | JStr string
  | JArr "json list"
  | JObj "(string \<times> json) list"

datatype error =
    TypeError
  | SyntaxError
  | FetchError
  | MissingEnv
  | ShopifyApiError int string
  | ShopifyCountError int string

text \<open>Truthiness, as \<open>if (x)\<close>, \<open>!x\<close>, \<open>x || y\<close> and \<open>x && y\<close> read it.\<close>

fun truthy :: "json option \<Rightarrow> bool" where
  "truthy None = False"
| "truthy (Some JNull) = False"
| "truthy (Some (JBool b)) = b"
| "truthy (Some (JNum n)) = (n \<noteq> 0)"
| "truthy (Some (JStr s)) = (s \<noteq> [])"
| "truthy (Some (JArr xs)) = True"
| "truthy (Some (JObj kvs)) = True"

text \<open>\<open>a || b\<close>: the first operand when it is truthy, the second otherwise.\<close>

definition orJ :: "json option \<Rightarrow> json option \<Rightarrow> json option" where
  "orJ a b = (if truthy a then a else b)"

text \<open>
  \<open>x.k\<close> for the property names the server reads (none of them is \<open>length\<close> or an
  index, so only an object has them). Reading a property of \<open>null\<close> raises a
  TypeError; that is written out at each place where the source dereferences a value
  that may be \<open>null\<close>.
\<close>

fun jget :: "json \<Rightarrow> string \<Rightarrow> json option" where
  "jget (JObj kvs) k = map_of kvs k"
| "jget j k = None"

definition dq :: char where
  "dq = CHR 0x22"

fun startsWith :: "string \<Rightarrow> string \<Rightarrow> bool" where
  "startsWith s [] = True"
| "startsWith [] (p # ps) = False"
| "startsWith (c # cs) (p # ps) = (c = p \<and> startsWith cs ps)"

fun includesStr :: "string \<Rightarrow> string \<Rightarrow> bool" where
  "includesStr [] p = (p = [])"
| "includesStr (c # cs) p = (startsWith (c # cs) p \<or> includesStr cs p)"

definition toLowerChar :: "char \<Rightarrow> char" where
  "toLowerChar c =
     (case map_of (zip ''ABCDEFGHIJKLMNOPQRSTUVWXYZ'' ''abcdefghijklmnopqrstuvwxyz'') c of
        Some l \<Rightarrow> l
      | None \<Rightarrow> c)"

definition toLowerCase :: "string \<Rightarrow> string" where
  "toLowerCase s = map toLowerChar s"

fun joinWith :: "string \<Rightarrow> string list \<Rightarrow> string" where
  "joinWith sep [] = []"
| "joinWith sep [x] = x"
| "joinWith sep (x # y # ys) = x @ sep @ joinWith sep (y # ys)"

text \<open>\<open>String(v)\<close> of a JSON value.\<close>

definition digitChar :: "nat \<Rightarrow> char" where
  "digitChar d = ''0123456789'' ! d"

fun digitsOf :: "nat \<Rightarrow> string" where
  "digitsOf n = (if n < 10 then [digitChar n] else digitsOf (n div 10) @ [digitChar (n mod 10)])"

declare digitsOf.simps [simp del]

fun toStr :: "json \<Rightarrow> string" where
  "toStr JNull = ''null''"
| "toStr (JBool b) = (if b then ''true'' else ''false'')"
| "toStr (JNum n) = (if n < 0 then CHR ''-'' # digitsOf (nat (- n)) else digitsOf (nat n))"
| "toStr (JStr s) = s"
| "toStr (JArr xs) = joinWith '','' (map (\<lambda>x. if x = JNull then [] else toStr x) xs)"
| "toStr (JObj kvs) = ''[object Object]''"

section \<open>Attribution extraction\<close>

text \<open>
  The record \<open>out\<close> of both extractors is a JavaScript object with the five utm keys,
  to which \<open>extractUtmFromUrl\<close> may add keys: a map from property names to strings.
\<close>

type_synonym attribution = "string \<rightharpoonup> string"

definition utmFields :: "string list" where
  "utmFields = [''utm_source'', ''utm_medium'', ''utm_campaign'', ''utm_term'', ''utm_content'']"

definition emptyUtm :: attribution where
  "emptyUtm = [''utm_source'' \<mapsto> [], ''utm_medium'' \<mapsto> [], ''utm_campaign'' \<mapsto> [],
               ''utm_term'' \<mapsto> [], ''utm_content'' \<mapsto> []]"

text \<open>\<open>out.f\<close> read as a string operand of \<open>||\<close>: a missing key is falsy like \<open>''\<close>.\<close>

definition getS :: "attribution \<Rightarrow> string \<Rightarrow> string" where
  "getS out f = (case out f of None \<Rightarrow> [] | Some s \<Rightarrow> s)"

definition orS :: "string \<Rightarrow> string \<Rightarrow> string" where
  "orS a b = (if a \<noteq> [] then a else b)"

subsection \<open>extractUtmFromUrl\<close>

text \<open>
  \<open>new URL(base).searchParams.entries()\<close> is the platform's: the parameter
  \<open>parseURL\<close> gives the decoded query pairs of a URL in order, and \<open>None\<close> where
  the constructor throws. \<open>SHOP\<close> is the environment variable SHOPIFY_STORE.
\<close>

type_synonym urlParser = "string \<Rightarrow> (string \<times> string) list option"

definition baseUrl :: "string option \<Rightarrow> string \<Rightarrow> string" where
  "baseUrl SHOP urlString =
     (if startsWith urlString ''http'' then urlString
      else ''https://'' @ (case SHOP of None \<Rightarrow> ''example.com''
                                      | Some s \<Rightarrow> if s \<noteq> [] then s else ''example.com'')
           @ urlString)"

fun assignUtmParams :: "(string \<times> string) list \<Rightarrow> attribution \<Rightarrow> attribution" where
  "assignUtmParams [] out = out"
| "assignUtmParams ((k, v) # es) out =
     assignUtmParams es (if startsWith k ''utm_'' then out(k \<mapsto> v) else out)"

text \<open>The body of the \<open>try\<close> block: a value without \<open>startsWith\<close> and a URL that does
  not parse both throw.\<close>

definition extractUtmTry :: "string option \<Rightarrow> urlParser \<Rightarrow> json option \<Rightarrow> error + attribution" where
  "extractUtmTry SHOP parseURL urlString =
     (case urlString of
        Some (JStr s) \<Rightarrow>
          (case parseURL (baseUrl SHOP s) of
             None \<Rightarrow> Inl TypeError
           | Some entries \<Rightarrow> Inr (assignUtmParams entries emptyUtm))
      | _ \<Rightarrow> Inl TypeError)"

text \<open>The function: the guard \<open>if (!urlString) return out\<close>, the \<open>try\<close>, and
  \<open>catch (e) {}\<close>, after which \<open>out\<close> is returned as it is (nothing was assigned
  before a throw).\<close>

definition extractUtmFromUrl :: "string option \<Rightarrow> urlParser \<Rightarrow> json option \<Rightarrow> error + attribution" where
  "extractUtmFromUrl SHOP parseURL urlString =
     (if \<not> truthy urlString then Inr emptyUtm
      else (case extractUtmTry SHOP parseURL urlString of
              Inl e \<Rightarrow> Inr emptyUtm
            | Inr out \<Rightarrow> Inr out))"

subsection \<open>extractUtmFromAttributes\<close>

text \<open>One of the five statements \<open>if (n.includes(f)) out.f = out.f || v\<close>.\<close>

definition setIfMatch :: "string \<Rightarrow> string \<Rightarrow> string \<Rightarrow> attribution \<Rightarrow> attribution" where
  "setIfMatch n v f out = (if includesStr n f then out(f \<mapsto> orS (getS out f) v) else out)"

definition applyAttr :: "string \<Rightarrow> string \<Rightarrow> attribution \<Rightarrow> attribution" where
  "applyAttr n v out = fold (setIfMatch n v) utmFields out"

text \<open>\<open>a.value ? String(a.value) : ''\<close>, and \<open>String(attrs[k] || '')\<close>, which is the same
  function of the value.\<close>

definition attrValue :: "json option \<Rightarrow> string" where
  "attrValue v = (case v of Some j \<Rightarrow> if truthy v then toStr j else [] | None \<Rightarrow> [])"

text \<open>The first revision of the server keeps the number zero:
  \<open>(a.value || a.value === 0) ? String(a.value) : ''\<close>.\<close>

definition attrValue0 :: "json option \<Rightarrow> string" where
  "attrValue0 v = (case v of Some j \<Rightarrow> if truthy v \<or> j = JNum 0 then toStr j else [] | None \<Rightarrow> [])"

text \<open>The loop over an array of attributes. \<open>a.name\<close> of a \<open>null\<close> element throws, and so
  does \<open>toLowerCase\<close> of a name that is not a string.\<close>

fun attrsArray :: "(json option \<Rightarrow> string) \<Rightarrow> json list \<Rightarrow> attribution \<Rightarrow> error + attribution" where
  "attrsArray val [] out = Inr out"
| "attrsArray val (a # as) out =
     (if a = JNull then Inl TypeError
      else (case orJ (orJ (jget a ''name'') (jget a ''key'')) (Some (JStr [])) of
              Some (JStr s) \<Rightarrow>
                (let n = toLowerCase s; v = val (jget a ''value'')
                 in if v = [] then attrsArray val as out
                    else attrsArray val as (applyAttr n v out))
            | _ \<Rightarrow> Inl TypeError))"

text \<open>The loop over \<open>Object.keys(attrs)\<close> of a plain object. (Keys that are array
  indices come first in \<open>Object.keys\<close>; they match no field, so their place does not
  matter.)\<close>

fun attrsObject :: "(string \<times> json) list \<Rightarrow> attribution \<Rightarrow> attribution" where
  "attrsObject [] out = out"
| "attrsObject ((k, x) # kvs) out =
     (let n = toLowerCase k; v = attrValue (Some x)
      in if v = [] then attrsObject kvs out else attrsObject kvs (applyAttr n v out))"

definition extractUtmFromAttributesWith ::
    "(json option \<Rightarrow> string) \<Rightarrow> json option \<Rightarrow> error + attribution" where
  "extractUtmFromAttributesWith val attrs =
     (if \<not> truthy attrs then Inr emptyUtm
      else (case attrs of
              Some (JArr as) \<Rightarrow> attrsArray val as emptyUtm
            | Some (JObj kvs) \<Rightarrow> Inr (attrsObject kvs emptyUtm)
            | _ \<Rightarrow> Inr emptyUtm))"

text \<open>The function of the current server, and the one of its first revision.\<close>

definition extractUtmFromAttributes :: "json option \<Rightarrow> error + attribution" where
  "extractUtmFromAttributes = extractUtmFromAttributesWith attrValue"

definition extractUtmFromAttributes0 :: "json option \<Rightarrow> error + attribution" where
  "extractUtmFromAttributes0 = extractUtmFromAttributesWith attrValue0"

section \<open>The platform\<close>

text \<open>
  What the server takes from Node.js, from its process environment and from the
  upstream platform: the store and the token (SHOPIFY_STORE, SHOPIFY_ACCESS_TOKEN), the
  URL parser, \<open>JSON.parse\<close> (\<open>None\<close> where it throws), \<open>encodeURIComponent\<close>, the time
  value of \<open>new Date(v)\<close> (\<open>None\<close> for an invalid date, whose time is NaN), and
  \<open>fetch\<close>, which answers a URL with a response or fails.
\<close>

record response =
  respOk :: bool
  respStatus :: int
  respBody :: string
  respJson :: "json option"
  respLink :: "string option"

record platform =
  SHOP :: "string option"
  TOKEN :: "string option"
  parseURL :: urlParser
  jsonParse :: "string \<Rightarrow> json option"
  encodeURIComponent :: "string \<Rightarrow> string"
  dateTime :: "json option \<Rightarrow> int option"
  fetch :: "string \<Rightarrow> error + response"

section \<open>Order rows\<close>

text \<open>
  A row is the object the server builds for an order: a map from property names to
  values. A property set to \<open>undefined\<close> is left out of the map (reading it gives
  \<open>undefined\<close> either way).
\<close>

type_synonym row = "string \<rightharpoonup> json"

definition setProp :: "string \<Rightarrow> json option \<Rightarrow> row \<Rightarrow> row" where
  "setProp k v r = (case v of None \<Rightarrow> r | Some j \<Rightarrow> r(k \<mapsto> j))"

text \<open>\<open>{..., ...utm}\<close>: the properties of \<open>utm\<close> are copied over the row.\<close>

definition spreadUtm :: "attribution \<Rightarrow> row \<Rightarrow> row" where
  "spreadUtm utm r = r ++ (\<lambda>k. map_option JStr (utm k))"

text \<open>\<open>a || d\<close> with a default \<open>d\<close> that is a value.\<close>

definition orElse :: "json option \<Rightarrow> json \<Rightarrow> json" where
  "orElse a d = (case a of None \<Rightarrow> d | Some j \<Rightarrow> if truthy a then j else d)"

text \<open>\<open>landingU.f || referringU.f || noteU.f || ''\<close>.\<close>

definition pickUtm :: "attribution \<Rightarrow> attribution \<Rightarrow> attribution \<Rightarrow> string \<Rightarrow> string" where
  "pickUtm landingU referringU noteU f =
     orS (orS (orS (getS landingU f) (getS referringU f)) (getS noteU f)) []"

definition utmObject :: "attribution \<Rightarrow> attribution \<Rightarrow> attribution \<Rightarrow> attribution" where
  "utmObject landingU referringU noteU =
     [''utm_source'' \<mapsto> pickUtm landingU referringU noteU ''utm_source'',
      ''utm_medium'' \<mapsto> pickUtm landingU referringU noteU ''utm_medium'',
      ''utm_campaign'' \<mapsto> pickUtm landingU referringU noteU ''utm_campaign'',
      ''utm_term'' \<mapsto> pickUtm landingU referringU noteU ''utm_term'',
      ''utm_content'' \<mapsto> pickUtm landingU referringU noteU ''utm_content'']"

text \<open>\<open>mapOrderNodeToRow\<close>, the normaliser of the bulk path.\<close>

definition mapOrderNodeToRow :: "platform \<Rightarrow> json \<Rightarrow> error + row" where
  "mapOrderNodeToRow pf node =
     (if node = JNull then Inl TypeError
      else
        let landing = orElse (orJ (orJ (jget node ''landingSite'') (jget node ''landing_site''))
                                  (jget node ''landingSiteUrl'')) (JStr []);
            referring = orElse (orJ (jget node ''referringSite'') (jget node ''referring_site''))
                               (JStr [])
        in (case extractUtmFromUrl (SHOP pf) (parseURL pf) (Some landing) of
              Inl e \<Rightarrow> Inl e
            | Inr landingU \<Rightarrow>
           (case extractUtmFromUrl (SHOP pf) (parseURL pf) (Some referring) of
              Inl e \<Rightarrow> Inl e
            | Inr referringU \<Rightarrow>
           (case extractUtmFromAttributes
                   (orJ (orJ (orJ (jget node ''noteAttributes'') (jget node ''note_attributes''))
                             (jget node ''attributes'')) (jget node ''attrs'')) of
              Inl e \<Rightarrow> Inl e
            | Inr noteU \<Rightarrow>
                Inr (spreadUtm (utmObject landingU referringU noteU)
                      [''id'' \<mapsto> orElse (jget node ''id'') (JStr []),
                       ''order_number'' \<mapsto>
                          orElse (orJ (orJ (jget node ''order_number'') (jget node ''orderNumber''))
                                      (jget node ''name'')) (JStr []),
                       ''created_at'' \<mapsto>
                          orElse (orJ (jget node ''createdAt'') (jget node ''created_at''))
                                 (JStr [])])))))"

text \<open>\<open>mapOrderToRow\<close>, the normaliser of the first revision's REST path.\<close>

definition mapOrderToRow :: "platform \<Rightarrow> json \<Rightarrow> error + row" where
  "mapOrderToRow pf ord =
     (if ord = JNull then Inl TypeError
      else
        (case extractUtmFromUrl (SHOP pf) (parseURL pf) (jget ord ''landing_site'') of
           Inl e \<Rightarrow> Inl e
         | Inr landingUtm \<Rightarrow>
        (case extractUtmFromUrl (SHOP pf) (parseURL pf) (jget ord ''referring_site'') of
           Inl e \<Rightarrow> Inl e
         | Inr referringUtm \<Rightarrow>
        (case extractUtmFromAttributes0 (orJ (jget ord ''note_attributes'') (jget ord ''attributes'')) of
           Inl e \<Rightarrow> Inl e
         | Inr noteUtm \<Rightarrow>
             Inr (spreadUtm (utmObject landingUtm referringUtm noteUtm)
                   (setProp ''created_at'' (jget ord ''created_at'')
                     (setProp ''order_number''
                        (Some (orElse (orJ (jget ord ''order_number'') (jget ord ''name'')) (JStr [])))
                       (setProp ''id'' (jget ord ''id'') Map.empty))))))))"

text \<open>
  The object \<open>fetchAllOrdersREST\<close> pushes for an order \<open>o\<close>:
  \<open>{id, order_number, created_at,
     ...Object.assign({}, extractUtmFromUrl(o.landing_site),
                          extractUtmFromAttributes(o.note_attributes || o.attributes))}\<close>.
  \<open>Object.assign\<close> copies the second record over the first.
\<close>

definition restRow :: "platform \<Rightarrow> json \<Rightarrow> error + row" where
  "restRow pf ord =
     (if ord = JNull then Inl TypeError
      else
        (case extractUtmFromUrl (SHOP pf) (parseURL pf) (jget ord ''landing_site'') of
           Inl e \<Rightarrow> Inl e
         | Inr landingU \<Rightarrow>
        (case extractUtmFromAttributes (orJ (jget ord ''note_attributes'') (jget ord ''attributes'')) of
           Inl e \<Rightarrow> Inl e
         | Inr noteU \<Rightarrow>
             Inr (spreadUtm (landingU ++ noteU)
                   (setProp ''created_at'' (jget ord ''created_at'')
                     (setProp ''order_number''
                        (Some (orElse (orJ (jget ord ''order_number'') (jget ord ''name'')) (JStr [])))
                       (setProp ''id'' (jget ord ''id'') Map.empty)))))))"

section \<open>CSV rendering\<close>

definition columns :: "string list" where
  "columns = [''order_number'', ''created_at'', ''utm_source'', ''utm_medium'', ''utm_campaign'',
              ''utm_term'', ''utm_content'']"

text \<open>\<open>v.replace(/"/g, '""')\<close>.\<close>

definition escapeQuotes :: "string \<Rightarrow> string" where
  "escapeQuotes v = concat (map (\<lambda>c. if c = dq then [dq, dq] else [c]) v)"

text \<open>\<open>r[k] === null || r[k] === undefined ? '' : String(r[k])\<close>.\<close>

definition cellText :: "json option \<Rightarrow> string" where
  "cellText x = (case x of None \<Rightarrow> [] | Some j \<Rightarrow> if j = JNull then [] else toStr j)"

definition csvCell :: "json option \<Rightarrow> string" where
  "csvCell x = dq # escapeQuotes (cellText x) @ [dq]"

definition csvLine :: "string list \<Rightarrow> row \<Rightarrow> string" where
  "csvLine cols r = joinWith '','' (map (\<lambda>k. csvCell (r k)) cols)"

text \<open>
  What follows a line in \<open>res.write\<close>. The handler in server.js writes \<open>'\\n'\<close>, a
  backslash and the letter n; its copies in README.md write \<open>'\n'\<close>, a line feed.
\<close>

definition eolServer :: string where
  "eolServer = [CHR 0x5C, CHR ''n'']"

definition eolReadme :: string where
  "eolReadme = [CHR 0x0A]"

section \<open>The bulk download\<close>

text \<open>
  The handler of \<open>/api/bulk/download\<close>, from the point where the export is read line by
  line (the lines as \<open>readline\<close> yields them). The output is the list of strings given
  to \<open>res.write\<close>, in order.
\<close>

definition isWhite :: "char \<Rightarrow> bool" where
  "isWhite c = (c \<in> set [CHR 0x09, CHR 0x0A, CHR 0x0B, CHR 0x0C, CHR 0x0D, CHR '' '', CHR 0xA0])"

definition trimStr :: "string \<Rightarrow> string" where
  "trimStr s = rev (dropWhile isWhite (rev (dropWhile isWhite s)))"

text \<open>\<open>x && x.k\<close>.\<close>

definition andGet :: "json option \<Rightarrow> string \<Rightarrow> json option" where
  "andGet x k = (case x of None \<Rightarrow> None | Some j \<Rightarrow> if truthy x then jget j k else x)"

text \<open>\<open>for (const x of v)\<close>: an array gives its elements, a string its characters;
  a number, a boolean and a plain object are not iterable.\<close>

fun iterate :: "json \<Rightarrow> error + json list" where
  "iterate (JArr xs) = Inr xs"
| "iterate (JStr s) = Inr (map (\<lambda>c. JStr [c]) s)"
| "iterate j = Inl TypeError"

text \<open>\<open>for (const edge of parsed.orders.edges)
          if (edge && edge.node) rows.push(mapOrderNodeToRow(edge.node))\<close>.\<close>

fun edgeRows :: "platform \<Rightarrow> json list \<Rightarrow> error + row list" where
  "edgeRows pf [] = Inr []"
| "edgeRows pf (edge # es) =
     (case andGet (Some edge) ''node'' of
        Some node \<Rightarrow>
          if truthy (Some node) then
            (case mapOrderNodeToRow pf node of
               Inl e \<Rightarrow> Inl e
             | Inr r \<Rightarrow> (case edgeRows pf es of Inl e \<Rightarrow> Inl e | Inr rs \<Rightarrow> Inr (r # rs)))
          else edgeRows pf es
      | None \<Rightarrow> edgeRows pf es)"

text \<open>The rows of one parsed line: wrapped edges, a wrapped node, or the object itself.\<close>

definition wrappedNode :: "json \<Rightarrow> json" where
  "wrappedNode parsed =
     (case andGet (Some parsed) ''node'' of
        None \<Rightarrow> parsed
      | Some node \<Rightarrow> if truthy (Some node) then node else parsed)"

definition lineRows :: "platform \<Rightarrow> json \<Rightarrow> error + row list" where
  "lineRows pf parsed =
     (let single = map_sum id (\<lambda>r. [r]) (mapOrderNodeToRow pf (wrappedNode parsed))
      in (case andGet (andGet (Some parsed) ''orders'') ''edges'' of
            None \<Rightarrow> single
          | Some edges \<Rightarrow>
              if truthy (Some edges) then
                (case iterate edges of Inl e \<Rightarrow> Inl e | Inr es \<Rightarrow> edgeRows pf es)
              else single))"

text \<open>The inner loop: write a line per row, count it, and leave at the preview limit.
  It returns the count and the output.\<close>

fun writeRows :: "string \<Rightarrow> int \<Rightarrow> row list \<Rightarrow> nat \<Rightarrow> string list \<Rightarrow> nat \<times> string list" where
  "writeRows eol preview [] count out = (count, out)"
| "writeRows eol preview (r # rs) count out =
     (let out' = out @ [csvLine columns r @ eol]; count' = count + 1
      in if preview \<noteq> 0 \<and> preview \<le> int count' then (count', out')
         else writeRows eol preview rs count' out')"

text \<open>
  The loop over the lines. \<open>preview\<close> is the parsed query parameter, 0 when absent
  (and for one that is not a number, which is as falsy as 0). The result is the output,
  the number of lines taken from the stream, and the exception that ended the loop, if
  one did.
\<close>

fun bulkLines ::
    "platform \<Rightarrow> string \<Rightarrow> int \<Rightarrow> string list \<Rightarrow> nat \<Rightarrow> string list \<Rightarrow> nat
       \<Rightarrow> string list \<times> nat \<times> error option" where
  "bulkLines pf eol preview [] count out nread = (out, nread, None)"
| "bulkLines pf eol preview (line # rest) count out nread =
     (if line = [] \<or> trimStr line = [] then bulkLines pf eol preview rest count out (nread + 1)
      else
        (case jsonParse pf line of
           None \<Rightarrow> bulkLines pf eol preview rest count out (nread + 1)
         | Some parsed \<Rightarrow>
             (case lineRows pf parsed of
                Inl e \<Rightarrow> (out, nread + 1, Some e)
              | Inr rows \<Rightarrow>
                  (case writeRows eol preview rows count out of
                     (count', out') \<Rightarrow>
                       if preview \<noteq> 0 \<and> preview \<le> int count' then (out', nread + 1, None)
                       else bulkLines pf eol preview rest count' out' (nread + 1)))))"

text \<open>The header is written first: \<open>res.write(columns.join(',') + eol)\<close>.\<close>

definition bulkDownloadWith ::
    "string \<Rightarrow> platform \<Rightarrow> int \<Rightarrow> string list \<Rightarrow> string list \<times> nat \<times> error option" where
  "bulkDownloadWith eol pf preview lines =
     bulkLines pf eol preview lines 0 [joinWith '','' columns @ eol] 0"

definition bulkDownload :: "platform \<Rightarrow> int \<Rightarrow> string list \<Rightarrow> string list \<times> nat \<times> error option" where
  "bulkDownload = bulkDownloadWith eolServer"

section \<open>The REST fetcher\<close>

definition ordersUrl :: "platform \<Rightarrow> string \<Rightarrow> string \<Rightarrow> string" where
  "ordersUrl pf created_at_min created_at_max =
     ''https://'' @ (case SHOP pf of None \<Rightarrow> ''undefined'' | Some s \<Rightarrow> s)
       @ ''/admin/api/2025-07/orders.json?status=any&limit=250&created_at_min=''
       @ encodeURIComponent pf created_at_min
       @ ''&created_at_max='' @ encodeURIComponent pf created_at_max"

text \<open>\<open>!SHOP || !TOKEN\<close>.\<close>

definition missingEnv :: "platform \<Rightarrow> bool" where
  "missingEnv pf = (SHOP pf = None \<or> SHOP pf = Some [] \<or> TOKEN pf = None \<or> TOKEN pf = Some [])"

text \<open>
  \<open>link.match(/<([^>]+)>; rel="next"/)\<close>: the first \<open><\<close> that is followed by at least
  one character other than \<open>>\<close>, then by \<open>>; rel="next"\<close>; the match gives the characters
  in between.
\<close>

definition relNext :: string where
  "relNext = ''rel='' @ [dq] @ ''next'' @ [dq]"

fun matchNext :: "string \<Rightarrow> string option" where
  "matchNext [] = None"
| "matchNext (c # cs) =
     (if c = CHR ''<'' \<and> takeWhile (\<lambda>x. x \<noteq> CHR ''>'') cs \<noteq> []
         \<and> startsWith (dropWhile (\<lambda>x. x \<noteq> CHR ''>'') cs) (''>; '' @ relNext)
      then Some (takeWhile (\<lambda>x. x \<noteq> CHR ''>'') cs)
      else matchNext cs)"

text \<open>The next URL of a response: \<open>null\<close> unless the link header is there, includes
  \<open>rel="next"\<close> and matches.\<close>

definition nextUrl :: "string option \<Rightarrow> string option" where
  "nextUrl link =
     (case link of
        None \<Rightarrow> None
      | Some l \<Rightarrow> if l \<noteq> [] \<and> includesStr l relNext then matchNext l else None)"

text \<open>The loop over the orders of a page: push the row, and leave at the cap.\<close>

fun pushOrders :: "platform \<Rightarrow> int \<Rightarrow> json list \<Rightarrow> row list \<Rightarrow> error + row list" where
  "pushOrders pf maxResults [] mapped = Inr mapped"
| "pushOrders pf maxResults (ord # os) mapped =
     (case restRow pf ord of
        Inl e \<Rightarrow> Inl e
      | Inr r \<Rightarrow>
          if maxResults \<le> int (length (mapped @ [r])) then Inr (mapped @ [r])
          else pushOrders pf maxResults os (mapped @ [r]))"

text \<open>\<open>if (data && data.orders) for (const o of data.orders) ...\<close>.\<close>

definition pushPage :: "platform \<Rightarrow> int \<Rightarrow> json \<Rightarrow> row list \<Rightarrow> error + row list" where
  "pushPage pf maxResults data mapped =
     (case andGet (Some data) ''orders'' of
        Some orders \<Rightarrow>
          if truthy (Some orders) then
            (case iterate orders of Inl e \<Rightarrow> Inl e | Inr os \<Rightarrow> pushOrders pf maxResults os mapped)
          else Inr mapped
      | None \<Rightarrow> Inr mapped)"

text \<open>One turn of \<open>while (url)\<close>: the request, the rows of the page, and the URL of the
  next turn (\<open>None\<close> after \<open>break\<close> and when there is no next link).\<close>

definition fetchPage :: "platform \<Rightarrow> int \<Rightarrow> string \<Rightarrow> row list \<Rightarrow> error + (row list \<times> string option)" where
  "fetchPage pf maxResults url mapped =
     (case fetch pf url of
        Inl e \<Rightarrow> Inl e
      | Inr resp \<Rightarrow>
          if \<not> respOk resp then Inl (ShopifyApiError (respStatus resp) (respBody resp))
          else
            (case respJson resp of
               None \<Rightarrow> Inl SyntaxError
             | Some data \<Rightarrow>
                 (case pushPage pf maxResults data mapped of
                    Inl e \<Rightarrow> Inl e
                  | Inr mapped' \<Rightarrow>
                      if maxResults \<le> int (length mapped') then Inr (mapped', None)
                      else Inr (mapped', nextUrl (respLink resp)))))"

text \<open>The loop. The result is the list of the URLs requested, with the rows or the
  error; \<open>None\<close> is a loop that never ends (next links that go round).\<close>

partial_function (option) fetchLoop ::
    "platform \<Rightarrow> int \<Rightarrow> string \<Rightarrow> row list \<Rightarrow> string list \<Rightarrow> (string list \<times> (error + row list)) option" where
  "fetchLoop pf maxResults url mapped reqs =
     (if url = [] then Some (reqs, Inr mapped)
      else
        (case fetchPage pf maxResults url mapped of
           Inl e \<Rightarrow> Some (reqs @ [url], Inl e)
         | Inr (mapped', None) \<Rightarrow> Some (reqs @ [url], Inr mapped')
         | Inr (mapped', Some u) \<Rightarrow> fetchLoop pf maxResults u mapped' (reqs @ [url])))"

definition fetchAllOrdersREST ::
    "platform \<Rightarrow> string \<Rightarrow> string \<Rightarrow> int \<Rightarrow> (string list \<times> (error + row list)) option" where
  "fetchAllOrdersREST pf created_at_min created_at_max maxResults =
     (if missingEnv pf then Some ([], Inl MissingEnv)
      else fetchLoop pf maxResults (ordersUrl pf created_at_min created_at_max) [] [])"

section \<open>The orders endpoint\<close>

text \<open>
  \<open>all.sort((a,b) => new Date(b.created_at) - new Date(a.created_at))\<close>. The comparator
  gives a number, or NaN (\<open>None\<close>) when one of the dates is invalid.
\<close>

definition createdAtCmp :: "platform \<Rightarrow> row \<Rightarrow> row \<Rightarrow> int option" where
  "createdAtCmp pf a b =
     (case (dateTime pf (b ''created_at''), dateTime pf (a ''created_at'')) of
        (Some tb, Some ta) \<Rightarrow> Some (tb - ta)
      | _ \<Rightarrow> None)"

text \<open>The revision with display dates keeps the upstream timestamp in
  \<open>created_at_raw\<close> and compares
  \<open>new Date(b.created_at_raw || b.created_at) - new Date(a.created_at_raw || a.created_at)\<close>.\<close>

definition createdAtRawCmp :: "platform \<Rightarrow> row \<Rightarrow> row \<Rightarrow> int option" where
  "createdAtRawCmp pf a b =
     (case (dateTime pf (orJ (b ''created_at_raw'') (b ''created_at'')),
            dateTime pf (orJ (a ''created_at_raw'') (a ''created_at''))) of
        (Some tb, Some ta) \<Rightarrow> Some (tb - ta)
      | _ \<Rightarrow> None)"

text \<open>
  \<open>Array.prototype.sort\<close> is stable and reads a comparator result NaN as 0. For a
  consistent comparator the sorted array is then determined, and it is the one a stable
  insertion sort builds.
\<close>

fun insertRow :: "(row \<Rightarrow> row \<Rightarrow> int option) \<Rightarrow> row \<Rightarrow> row list \<Rightarrow> row list" where
  "insertRow cmp x [] = [x]"
| "insertRow cmp x (y # ys) =
     (if (case cmp x y of None \<Rightarrow> True | Some d \<Rightarrow> d \<le> 0) then x # y # ys
      else y # insertRow cmp x ys)"

definition sortRows :: "(row \<Rightarrow> row \<Rightarrow> int option) \<Rightarrow> row list \<Rightarrow> row list" where
  "sortRows cmp xs = foldr (insertRow cmp) xs []"

text \<open>
  \<open>p = Math.max(1, parseInt(page))\<close>, \<open>ps = Math.max(1, Math.min(1000, parseInt(pageSize)))\<close>,
  \<open>all.slice((p-1)*ps, (p-1)*ps + ps)\<close>. A parameter that is not a number (\<open>None\<close>)
  makes both bounds NaN, which \<open>slice\<close> reads as 0.
\<close>

definition pageOf :: "int option \<Rightarrow> int option \<Rightarrow> row list \<Rightarrow> row list" where
  "pageOf page pageSize rows =
     (case (page, pageSize) of
        (Some pg, Some sz) \<Rightarrow>
          (let p = max 1 pg; ps = max 1 (min 1000 sz); startIdx = (p - 1) * ps
           in take (nat ps) (drop (nat startIdx) rows))
      | _ \<Rightarrow> [])"

definition ordersPage :: "platform \<Rightarrow> int option \<Rightarrow> int option \<Rightarrow> row list \<Rightarrow> row list" where
  "ordersPage pf page pageSize rows = pageOf page pageSize (sortRows (createdAtCmp pf) rows)"

definition ordersPageRaw :: "platform \<Rightarrow> int option \<Rightarrow> int option \<Rightarrow> row list \<Rightarrow> row list" where
  "ordersPageRaw pf page pageSize rows = pageOf page pageSize (sortRows (createdAtRawCmp pf) rows)"

text \<open>The handler of \<open>/api/orders\<close> in server.js: the \<open>orders\<close> of its reply, or its
  error (status 500).\<close>

definition ordersHandler ::
    "platform \<Rightarrow> string \<Rightarrow> string \<Rightarrow> int \<Rightarrow> int option \<Rightarrow> int option \<Rightarrow> (error + row list) option" where
  "ordersHandler pf created_at_min created_at_max maxResults page pageSize =
     map_option (\<lambda>(reqs, res). map_sum id (ordersPage pf page pageSize) res)
       (fetchAllOrdersREST pf created_at_min created_at_max maxResults)"

section \<open>The count probe\<close>

definition countUrl :: "platform \<Rightarrow> string \<Rightarrow> string \<Rightarrow> string" where
  "countUrl pf created_at_min created_at_max =
     ''https://'' @ (case SHOP pf of None \<Rightarrow> ''undefined'' | Some s \<Rightarrow> s)
       @ ''/admin/api/2025-07/orders/count.json?status=any&created_at_min=''
       @ encodeURIComponent pf created_at_min
       @ ''&created_at_max='' @ encodeURIComponent pf created_at_max"

text \<open>\<open>fetchOrdersCount\<close>: the URLs requested, and \<open>j.count || 0\<close> or the error.\<close>

definition fetchOrdersCount :: "platform \<Rightarrow> string \<Rightarrow> string \<Rightarrow> string list \<times> (error + json)" where
  "fetchOrdersCount pf created_at_min created_at_max =
     (if missingEnv pf then ([], Inl MissingEnv)
      else
        (let u = countUrl pf created_at_min created_at_max
         in (case fetch pf u of
               Inl e \<Rightarrow> ([u], Inl e)
             | Inr r \<Rightarrow>
                 if \<not> respOk r then ([u], Inl (ShopifyCountError (respStatus r) (respBody r)))
                 else
                   (case respJson r of
                      None \<Rightarrow> ([u], Inl SyntaxError)
                    | Some j \<Rightarrow>
                        if j = JNull then ([u], Inl TypeError)
                        else ([u], Inr (orElse (jget j ''count'') (JNum 0)))))))"


section \<open>The reading of an attribute collection\<close>

text \<open>
  An attribute collection as a list of entries, each a key and the value as a string
  (empty when the value counts as absent), and the value a field takes from it: that of
  the first entry with a value whose lower-cased key contains the field name, or the
  empty string when there is none.
\<close>

definition firstMatch :: "string \<Rightarrow> (string \<times> string) list \<Rightarrow> string" where
  "firstMatch f entries =
     (case filter (\<lambda>(k, v). v \<noteq> [] \<and> includesStr (toLowerCase k) f) entries of
        [] \<Rightarrow> []
      | (k, v) # rest \<Rightarrow> v)"

text \<open>The attribute \<open>{name: n, value: v}\<close>.\<close>

definition pairObj :: "string \<times> json \<Rightarrow> json" where
  "pairObj p = JObj [(''name'', JStr (fst p)), (''value'', snd p)]"

text \<open>The assignments of either loop, over the entries.\<close>

fun applyEntries :: "(string \<times> string) list \<Rightarrow> attribution \<Rightarrow> attribution" where
  "applyEntries [] out = out"
| "applyEntries ((k, v) # es) out =
     applyEntries es (if v = [] then out else applyAttr (toLowerCase k) v out)"


section \<open>A CSV reader\<close>

text \<open>
  The reader of one CSV record as RFC 4180 describes it: fields are separated by commas;
  a field that starts with a double quote runs to the closing double quote, and two
  double quotes inside it stand for one; a field that does not start with a double quote
  contains none. A record that is not well formed gives \<open>None\<close>. The state is the place
  in the record, the field read so far and the fields completed.
\<close>

datatype csvState = FieldStart | Unquoted | Quoted | QuoteSeen

fun csvRead :: "csvState \<Rightarrow> string \<Rightarrow> string list \<Rightarrow> string \<Rightarrow> string list option" where
  "csvRead Quoted cur acc [] = None"
| "csvRead st cur acc [] = Some (acc @ [cur])"
| "csvRead FieldStart cur acc (c # cs) =
     (if c = dq then csvRead Quoted [] acc cs
      else if c = CHR '','' then csvRead FieldStart [] (acc @ [[]]) cs
      else if c = CHR 0x0A \<or> c = CHR 0x0D then None
      else csvRead Unquoted [c] acc cs)"
| "csvRead Unquoted cur acc (c # cs) =
     (if c = CHR '','' then csvRead FieldStart [] (acc @ [cur]) cs
      else if c = dq \<or> c = CHR 0x0A \<or> c = CHR 0x0D then None
      else csvRead Unquoted (cur @ [c]) acc cs)"
| "csvRead Quoted cur acc (c # cs) =
     (if c = dq then csvRead QuoteSeen cur acc cs
      else csvRead Quoted (cur @ [c]) acc cs)"
| "csvRead QuoteSeen cur acc (c # cs) =
     (if c = dq then csvRead Quoted (cur @ [dq]) acc cs
      else if c = CHR '','' then csvRead FieldStart [] (acc @ [cur]) cs
      else None)"

definition csvReadRecord :: "string \<Rightarrow> string list option" where
  "csvReadRecord s = csvRead FieldStart [] [] s"


section \<open>Example data\<close>

text \<open>
  A platform for the examples: a store and a token, the query pairs of two URLs as
  \<open>new URL\<close> gives them (every other URL is taken as malformed), and no network.
\<close>

definition exampleParseURL :: urlParser where
  "exampleParseURL u =
     (if u = ''https://shop.example/?utm_source=land'' then Some [(''utm_source'', ''land'')]
      else if u = ''https://ref.example/?utm_source=ref'' then Some [(''utm_source'', ''ref'')]
      else None)"

definition examplePlatform :: platform where
  "examplePlatform =
     \<lparr>SHOP = Some ''shop.example'', TOKEN = Some ''shpat'', parseURL = exampleParseURL,
      jsonParse = (\<lambda>s. None), encodeURIComponent = (\<lambda>s. s), dateTime = (\<lambda>v. None),
      fetch = (\<lambda>u. Inl FetchError)\<rparr>"

text \<open>An order with a landing page, a referring page and a note attribute that each
  carry a \<open>utm_source\<close>.\<close>

definition exampleOrder :: json where
  "exampleOrder =
     JObj [(''id'', JNum 1), (''name'', JStr ''#1001''),
           (''created_at'', JStr ''2025-01-02T03:04:05Z''),
           (''landing_site'', JStr ''/?utm_source=land''),
           (''referring_site'', JStr ''https://ref.example/?utm_source=ref''),
           (''note_attributes'',
              JArr [JObj [(''name'', JStr ''utm_source''), (''value'', JStr ''note'')]])]"

text \<open>An order with a landing page alone.\<close>

definition exampleLandingOrder :: json where
  "exampleLandingOrder =
     JObj [(''id'', JNum 2), (''name'', JStr ''#1002''),
           (''created_at'', JStr ''2025-01-03T03:04:05Z''),
           (''landing_site'', JStr ''/?utm_source=land'')]"

definition okResponse :: "json \<Rightarrow> string option \<Rightarrow> response" where
  "okResponse body link =
     \<lparr>respOk = True, respStatus = 200, respBody = [], respJson = Some body, respLink = link\<rparr>"


section \<open>Upstream pages\<close>

text \<open>
  The rows of a page when no cap applies: the row of each order of \<open>data.orders\<close>, in
  order.
\<close>

fun restRows :: "platform \<Rightarrow> json list \<Rightarrow> error + row list" where
  "restRows pf [] = Inr []"
| "restRows pf (ord # os) =
     (case restRow pf ord of
        Inl e \<Rightarrow> Inl e
      | Inr r \<Rightarrow> (case restRows pf os of Inl e \<Rightarrow> Inl e | Inr rs \<Rightarrow> Inr (r # rs)))"

definition pageRows :: "platform \<Rightarrow> response \<Rightarrow> error + row list" where
  "pageRows pf resp =
     (case respJson resp of
        None \<Rightarrow> Inl SyntaxError
      | Some data \<Rightarrow>
          (case andGet (Some data) ''orders'' of
             None \<Rightarrow> Inr []
           | Some orders \<Rightarrow>
               if truthy (Some orders) then
                 (case iterate orders of Inl e \<Rightarrow> Inl e | Inr os \<Rightarrow> restRows pf os)
               else Inr []))"

text \<open>
  A sequence of upstream pages, each with its URL, its response and its rows: every
  response is a success with a body whose orders give the rows, every page but the last
  has a link header whose next URL is the URL of the page after it, and the last has no
  next URL.
\<close>

fun pagesChain :: "platform \<Rightarrow> (string \<times> response \<times> row list) list \<Rightarrow> bool" where
  "pagesChain pf [] = True"
| "pagesChain pf ((u, resp, rows) # rest) =
     (u \<noteq> [] \<and> fetch pf u = Inr resp \<and> respOk resp \<and> pageRows pf resp = Inr rows
      \<and> nextUrl (respLink resp) = (case rest of [] \<Rightarrow> None | p # ps \<Rightarrow> Some (fst p))
      \<and> pagesChain pf rest)"

text \<open>The rows of all the pages, and the number of rows of the first \<open>j\<close> pages.\<close>

definition chainRows :: "(string \<times> response \<times> row list) list \<Rightarrow> row list" where
  "chainRows pages = concat (map (\<lambda>p. snd (snd p)) pages)"

definition rowsBefore :: "nat \<Rightarrow> (string \<times> response \<times> row list) list \<Rightarrow> nat" where
  "rowsBefore j pages = length (chainRows (take j pages))"

text \<open>The number of pages to request for a cap, given the sizes of the pages.\<close>

fun pagesNeeded :: "int \<Rightarrow> nat list \<Rightarrow> nat" where
  "pagesNeeded cap [] = 0"
| "pagesNeeded cap (n # ns) = (if cap \<le> int n then 1 else 1 + pagesNeeded (cap - int n) ns)"

text \<open>An upstream with two pages of one order each, the first linked to the second.\<close>

definition examplePage2Url :: string where
  "examplePage2Url = ''https://shop.example/admin/api/2025-07/orders.json?page_info=p2''"

definition exampleFetch :: "string \<Rightarrow> error + response" where
  "exampleFetch u =
     (if u = examplePage2Url
      then Inr (okResponse (JObj [(''orders'', JArr [exampleLandingOrder])]) None)
      else Inr (okResponse (JObj [(''orders'', JArr [exampleOrder])])
                  (Some (''<'' @ examplePage2Url @ ''>; '' @ relNext))))"


section \<open>The lines of a bulk export\<close>

text \<open>
  An attribute is an object whose name (or key) is a string or missing. A node is
  order-shaped when it is an object and its attribute collection, where that is an
  array, holds attributes.
\<close>

definition attrOk :: "json \<Rightarrow> bool" where
  "attrOk a =
     (case a of
        JObj kvs \<Rightarrow>
          (case orJ (orJ (map_of kvs ''name'') (map_of kvs ''key'')) (Some (JStr [])) of
             Some (JStr s) \<Rightarrow> True
           | _ \<Rightarrow> False)
      | _ \<Rightarrow> False)"

definition orderShaped :: "json \<Rightarrow> bool" where
  "orderShaped node =
     (case node of
        JObj kvs \<Rightarrow>
          (case orJ (orJ (orJ (map_of kvs ''noteAttributes'') (map_of kvs ''note_attributes''))
                         (map_of kvs ''attributes'')) (map_of kvs ''attrs'') of
             Some (JArr as) \<Rightarrow> list_all attrOk as
           | _ \<Rightarrow> True)
      | _ \<Rightarrow> False)"

text \<open>
  What a line of the export is: blank, malformed (it fails \<open>JSON.parse\<close>), a wrapped
  collection of order edges, a single wrapped node, or a bare order-shaped object.
\<close>

datatype bulkLine = Blank | Malformed | Edges "json list" | Node json | Bare json

fun lineJson :: "bulkLine \<Rightarrow> json option" where
  "lineJson Blank = None"
| "lineJson Malformed = None"
| "lineJson (Edges ns) =
     Some (JObj [(''orders'', JObj [(''edges'', JArr (map (\<lambda>n. JObj [(''node'', n)]) ns))])])"
| "lineJson (Node n) = Some (JObj [(''node'', n)])"
| "lineJson (Bare n) = Some n"

fun lineNodes :: "bulkLine \<Rightarrow> json list" where
  "lineNodes Blank = []"
| "lineNodes Malformed = []"
| "lineNodes (Edges ns) = ns"
| "lineNodes (Node n) = [n]"
| "lineNodes (Bare n) = [n]"

text \<open>A bare object is read as an order when it does not look wrapped.\<close>

fun lineOk :: "bulkLine \<Rightarrow> bool" where
  "lineOk Blank = True"
| "lineOk Malformed = True"
| "lineOk (Edges ns) = list_all orderShaped ns"
| "lineOk (Node n) = orderShaped n"
| "lineOk (Bare n) =
     (orderShaped n \<and> \<not> truthy (andGet (andGet (Some n) ''orders'') ''edges'')
      \<and> \<not> truthy (jget n ''node''))"

text \<open>The text \<open>t\<close> of a line is a line of the kind \<open>sh\<close>.\<close>

definition lineMatches :: "platform \<Rightarrow> string \<Rightarrow> bulkLine \<Rightarrow> bool" where
  "lineMatches pf t sh =
     (if sh = Blank then t = [] \<or> trimStr t = []
      else t \<noteq> [] \<and> trimStr t \<noteq> [] \<and> jsonParse pf t = lineJson sh \<and> lineOk sh)"

text \<open>The rows of the nodes of a file of lines, each line given with its kind.\<close>

definition nodeRow :: "platform \<Rightarrow> json \<Rightarrow> row list" where
  "nodeRow pf n = (case mapOrderNodeToRow pf n of Inl e \<Rightarrow> [] | Inr r \<Rightarrow> [r])"

definition lineRowsOf :: "platform \<Rightarrow> bulkLine \<Rightarrow> row list" where
  "lineRowsOf pf sh = concat (map (nodeRow pf) (lineNodes sh))"

definition fileRows :: "platform \<Rightarrow> (string \<times> bulkLine) list \<Rightarrow> row list" where
  "fileRows pf lns = concat (map (\<lambda>l. lineRowsOf pf (snd l)) lns)"

text \<open>
  Four lines of an export and what \<open>JSON.parse\<close> makes of them: a collection of two
  edges, a line cut short, a wrapped node and a bare order.
\<close>

definition exampleEdgesLine :: string where
  "exampleEdgesLine =
     ''{\"orders\":{\"edges\":[{\"node\":{\"name\":\"#1003\"}},{\"node\":{\"name\":\"#1004\"}}]}}''"

definition exampleCutLine :: string where
  "exampleCutLine = ''{\"name\":\"#1005\",''"

definition exampleNodeLine :: string where
  "exampleNodeLine = ''{\"node\":{\"name\":\"#1002\"}}''"

definition exampleBareLine :: string where
  "exampleBareLine = ''{\"name\":\"#1001\",\"landingSite\":\"/?utm_source=land\"}''"

definition exampleJsonParse :: "string \<Rightarrow> json option" where
  "exampleJsonParse s =
     (if s = exampleEdgesLine then
        Some (JObj [(''orders'', JObj [(''edges'',
                JArr [JObj [(''node'', JObj [(''name'', JStr ''#1003'')])],
                      JObj [(''node'', JObj [(''name'', JStr ''#1004'')])]])])])
      else if s = exampleNodeLine then
        Some (JObj [(''node'', JObj [(''name'', JStr ''#1002'')])])
      else if s = exampleBareLine then
        Some (JObj [(''name'', JStr ''#1001''), (''landingSite'', JStr ''/?utm_source=land'')])
      else None)"


section \<open>Order by time\<close>

text \<open>
  A list of rows is newest first by a timestamp property when, of any two rows, the
  earlier in the list has a valid date that is not before the date of the later.
\<close>

definition newestFirst :: "platform \<Rightarrow> (row \<Rightarrow> json option) \<Rightarrow> row list \<Rightarrow> bool" where
  "newestFirst pf stamp rows =
     sorted_wrt (\<lambda>a b. case (dateTime pf (stamp a), dateTime pf (stamp b)) of
                          (Some ta, Some tb) \<Rightarrow> tb \<le> ta
                        | _ \<Rightarrow> False) rows"

text \<open>The time values of two timestamps of January 2025, in milliseconds.\<close>

definition exampleDateTime :: "json option \<Rightarrow> int option" where
  "exampleDateTime v =
     (if v = Some (JStr ''2025-01-02T03:04:05Z'') then Some 1735787045000
      else if v = Some (JStr ''2025-01-03T03:04:05Z'') then Some 1735873445000
      else None)"

section \<open>Verified properties\<close>

subsection \<open>URL extraction\<close>

lemma assignUtmParams_other:
  "\<not> startsWith k ''utm_'' \<Longrightarrow> assignUtmParams es out k = out k"
  by (induction es arbitrary: out) auto

lemma assignUtmParams_absent:
  "k \<notin> fst ` set es \<Longrightarrow> assignUtmParams es out k = out k"
  by (induction es arbitrary: out) (auto split: if_splits)

lemma assignUtmParams_last:
  "startsWith k ''utm_'' \<Longrightarrow> k \<notin> fst ` set post \<Longrightarrow>
   assignUtmParams (pre @ (k, v) # post) out k = Some v"
proof (induction pre arbitrary: out)
  case Nil
  then show ?case by (simp add: assignUtmParams_absent)
next
  case (Cons p pre)
  then show ?case by (cases p) simp
qed

lemma emptyUtm_fields: "f \<in> set utmFields \<Longrightarrow> emptyUtm f = Some []"
  by (auto simp: utmFields_def emptyUtm_def)

lemma dom_emptyUtm: "dom emptyUtm = set utmFields"
  by (auto simp: utmFields_def emptyUtm_def split: if_splits)

text \<open>
  C4. \<open>extractUtmFromUrl\<close> never raises: whatever value it is given and whatever the URL
  parser does, it returns a record. Where the URL does not parse, the record is the
  initial one, which has the five utm fields and the empty string in each.
\<close>

theorem extractUtmFromUrl_total:
  "(\<exists>out. extractUtmFromUrl shop parse u = Inr out)
   \<and> (parse (baseUrl shop s) = None \<longrightarrow>
        extractUtmFromUrl shop parse (Some (JStr s)) = Inr emptyUtm)
   \<and> dom emptyUtm = set utmFields \<and> (\<forall>f \<in> set utmFields. emptyUtm f = Some [])"
  by (auto simp: extractUtmFromUrl_def extractUtmTry_def dom_emptyUtm emptyUtm_fields
           split: sum.splits option.splits json.splits)

theorem extractUtmFromUrl_total_witness:
  "extractUtmFromUrl None (\<lambda>u. None) (Some (JStr ''not a url ::'')) = Inr emptyUtm
   \<and> emptyUtm ''utm_source'' = Some [] \<and> emptyUtm ''utm_content'' = Some []"
  using extractUtmFromUrl_total [of None "\<lambda>u. None" "Some (JStr ''not a url ::'')" "''not a url ::''"]
  by (simp add: utmFields_def)

text \<open>
  C10. A query parameter whose key starts with \<open>utm_\<close> is copied into the returned
  record under its own key, whether or not the key is one of the five fields, so the
  record can have more keys than the five; of several parameters with one key the last
  gives the value.
\<close>

theorem extractUtmFromUrl_extra_keys:
  assumes "s \<noteq> []"
    and "parse (baseUrl shop s) = Some (pre @ (k, v) # post)"
    and "startsWith k ''utm_''"
    and "k \<notin> fst ` set post"
  shows "\<exists>out. extractUtmFromUrl shop parse (Some (JStr s)) = Inr out \<and> out k = Some v"
  using assms by (simp add: extractUtmFromUrl_def extractUtmTry_def assignUtmParams_last)

theorem extractUtmFromUrl_extra_keys_witness:
  "\<exists>out. extractUtmFromUrl None
            (\<lambda>u. if u = ''https://example.com/?utm_id=x&utm_id=y''
                  then Some [(''utm_id'', ''x''), (''utm_id'', ''y'')] else None)
            (Some (JStr ''/?utm_id=x&utm_id=y'')) = Inr out
         \<and> out ''utm_id'' = Some ''y'' \<and> ''utm_id'' \<notin> set utmFields"
proof -
  have "\<exists>out. extractUtmFromUrl None
            (\<lambda>u. if u = ''https://example.com/?utm_id=x&utm_id=y''
                  then Some [(''utm_id'', ''x''), (''utm_id'', ''y'')] else None)
            (Some (JStr ''/?utm_id=x&utm_id=y'')) = Inr out
         \<and> out ''utm_id'' = Some ''y''"
    by (rule extractUtmFromUrl_extra_keys [where pre = "[(''utm_id'', ''x'')]" and post = "[]"])
       (simp_all add: baseUrl_def)
  then show ?thesis by (simp add: utmFields_def)
qed

subsection \<open>Attribute extraction\<close>

lemma setIfMatch_other: "g \<noteq> f \<Longrightarrow> setIfMatch n v g out f = out f"
  by (simp add: setIfMatch_def)

lemma setIfMatch_same:
  "setIfMatch n v f out f = (if includesStr n f then Some (orS (getS out f) v) else out f)"
  by (simp add: setIfMatch_def)

lemma fold_setIfMatch_absent:
  "f \<notin> set gs \<Longrightarrow> fold (setIfMatch n v) gs out f = out f"
  by (induction gs arbitrary: out) (auto simp: setIfMatch_other)

lemma fold_setIfMatch_field:
  "distinct gs \<Longrightarrow> f \<in> set gs \<Longrightarrow>
   fold (setIfMatch n v) gs out f
     = (if includesStr n f then Some (orS (getS out f) v) else out f)"
proof (induction gs arbitrary: out)
  case Nil
  then show ?case by simp
next
  case (Cons g gs)
  show ?case
  proof (cases "g = f")
    case True
    then have "f \<notin> set gs" using Cons.prems by simp
    then show ?thesis
      using True by (simp add: fold_setIfMatch_absent setIfMatch_same)
  next
    case False
    then have "f \<in> set gs" and "distinct gs" using Cons.prems by auto
    then show ?thesis
      using False Cons.IH [of "setIfMatch n v g out"]
      by (simp add: setIfMatch_other getS_def)
  qed
qed

lemma applyAttr_field:
  "f \<in> set utmFields \<Longrightarrow>
   applyAttr n v out f = (if includesStr n f then Some (orS (getS out f) v) else out f)"
  unfolding applyAttr_def
  by (rule fold_setIfMatch_field) (simp_all add: utmFields_def)

lemma attrsObject_entries:
  "attrsObject kvs out = applyEntries (map (\<lambda>(k, x). (k, attrValue (Some x))) kvs) out"
  by (induction kvs arbitrary: out) (auto simp: Let_def)

lemma attrsArray_entries:
  "attrsArray val (map pairObj ps) out
     = Inr (applyEntries (map (\<lambda>(n, v). (n, val (Some v))) ps) out)"
proof (induction ps arbitrary: out)
  case Nil
  then show ?case by simp
next
  case (Cons p ps)
  obtain n v where p: "p = (n, v)" by (cases p)
  have nm: "orJ (orJ (jget (pairObj (n, v)) ''name'') (jget (pairObj (n, v)) ''key''))
                (Some (JStr [])) = Some (JStr n)"
    by (simp add: pairObj_def orJ_def)
  have vl: "jget (pairObj (n, v)) ''value'' = Some v"
    by (simp add: pairObj_def)
  have nn: "pairObj (n, v) \<noteq> JNull" by (simp add: pairObj_def)
  show ?case
    unfolding p using Cons.IH by (simp add: nm vl nn Let_def)
qed

lemma applyEntries_field:
  "f \<in> set utmFields \<Longrightarrow> out f = Some x \<Longrightarrow>
   applyEntries es out f = Some (orS x (firstMatch f es))"
proof (induction es arbitrary: out x)
  case Nil
  then show ?case by (simp add: firstMatch_def orS_def)
next
  case (Cons e es)
  obtain k v where e: "e = (k, v)" by (cases e)
  show ?case
  proof (cases "v \<noteq> [] \<and> includesStr (toLowerCase k) f")
    case True
    then have step: "applyAttr (toLowerCase k) v out f = Some (orS x v)"
      using Cons.prems by (simp add: applyAttr_field getS_def)
    have "applyEntries es (applyAttr (toLowerCase k) v out) f
            = Some (orS (orS x v) (firstMatch f es))"
      using Cons.prems(1) step by (rule Cons.IH)
    moreover have "firstMatch f (e # es) = v"
      using True by (simp add: e firstMatch_def)
    ultimately show ?thesis using True by (simp add: e orS_def)
  next
    case False
    then have same: "(if v = [] then out else applyAttr (toLowerCase k) v out) f = Some x"
      using Cons.prems by (auto simp: applyAttr_field)
    have "applyEntries es (if v = [] then out else applyAttr (toLowerCase k) v out) f
            = Some (orS x (firstMatch f es))"
      using Cons.prems(1) same by (rule Cons.IH)
    moreover have "firstMatch f (e # es) = firstMatch f es"
      using False by (auto simp: e firstMatch_def)
    ultimately show ?thesis by (simp add: e)
  qed
qed

text \<open>
  C5. For an array of \<open>{name, value}\<close> attributes and for a key-to-value object,
  \<open>extractUtmFromAttributes\<close> gives each of the five fields the value of the first
  entry, in the order of the collection, whose value is not empty and whose lower-cased
  key contains the field name (the empty string when there is none). This holds for the
  current function and for the one of the first revision, which differ in the values
  they count as empty.
\<close>

theorem extractUtmFromAttributes_first_match:
  assumes "f \<in> set utmFields"
  shows "(\<exists>out. extractUtmFromAttributes (Some (JArr (map pairObj ps))) = Inr out
            \<and> out f = Some (firstMatch f (map (\<lambda>(n, v). (n, attrValue (Some v))) ps)))
       \<and> (\<exists>out. extractUtmFromAttributes0 (Some (JArr (map pairObj ps))) = Inr out
            \<and> out f = Some (firstMatch f (map (\<lambda>(n, v). (n, attrValue0 (Some v))) ps)))
       \<and> (\<exists>out. extractUtmFromAttributes (Some (JObj kvs)) = Inr out
            \<and> out f = Some (firstMatch f (map (\<lambda>(k, x). (k, attrValue (Some x))) kvs)))"
  using assms emptyUtm_fields [OF assms]
  by (simp add: extractUtmFromAttributes_def extractUtmFromAttributes0_def
        extractUtmFromAttributesWith_def attrsArray_entries attrsObject_entries
        applyEntries_field orS_def)

theorem extractUtmFromAttributes_first_match_witness:
  "\<exists>out. extractUtmFromAttributes
            (Some (JArr [JObj [(''name'', JStr ''UTM_Source''), (''value'', JStr ''a'')],
                         JObj [(''name'', JStr ''utm_source_x''), (''value'', JStr ''b'')]])) = Inr out
         \<and> out ''utm_source'' = Some ''a''"
  using extractUtmFromAttributes_first_match
          [of "''utm_source''" "[(''UTM_Source'', JStr ''a''), (''utm_source_x'', JStr ''b'')]" "[]"]
  by (simp add: utmFields_def pairObj_def firstMatch_def attrValue_def toLowerCase_def toLowerChar_def)

subsection \<open>CSV rendering\<close>

lemma csvRead_escaped:
  "csvRead Quoted cur acc (escapeQuotes v @ dq # rest) = csvRead QuoteSeen (cur @ v) acc rest"
  by (induction v arbitrary: cur) (simp_all add: escapeQuotes_def)

lemma csvRead_cell:
  "csvRead FieldStart cur acc (csvCell x @ rest) = csvRead QuoteSeen (cellText x) acc rest"
  using csvRead_escaped [of "[]" acc "cellText x" rest] by (simp add: csvCell_def)

lemma csvRead_cells:
  "xs \<noteq> [] \<Longrightarrow>
   csvRead FieldStart [] acc (joinWith '','' (map csvCell xs)) = Some (acc @ map cellText xs)"
proof (induction xs arbitrary: acc)
  case Nil
  then show ?case by simp
next
  case (Cons x xs)
  show ?case
  proof (cases xs)
    case Nil
    then show ?thesis using csvRead_cell [of "[]" acc x "[]"] by simp
  next
    case (Cons y ys)
    then have "csvRead FieldStart [] (acc @ [cellText x]) (joinWith '','' (map csvCell xs))
                 = Some ((acc @ [cellText x]) @ map cellText xs)"
      using Cons.IH by simp
    then show ?thesis
      using Cons csvRead_cell [of "[]" acc x "'','' @ joinWith '','' (map csvCell xs)"]
      by (simp add: dq_def)
  qed
qed

lemma csvRead_line:
  "cols \<noteq> [] \<Longrightarrow> csvReadRecord (csvLine cols r) = Some (map (\<lambda>k. cellText (r k)) cols)"
  using csvRead_cells [of "map r cols" "[]"]
  by (simp add: csvReadRecord_def csvLine_def comp_def)

lemma escapeQuotes_append: "escapeQuotes (a @ b) = escapeQuotes a @ escapeQuotes b"
  by (simp add: escapeQuotes_def)

lemma escapeQuotes_plain: "dq \<notin> set v \<Longrightarrow> escapeQuotes v = v"
  by (induction v) (auto simp: escapeQuotes_def)

text \<open>
  C9. A string value is rendered as one cell in double quotes, with every double quote
  of the value doubled and every other character, a comma too, as it is; \<open>null\<close> and
  \<open>undefined\<close> are rendered as the empty cell. Read back by the CSV reader, the cell
  is one field with the original value.
\<close>

theorem csvCell_roundtrip:
  "csvCell (Some (JStr (a @ dq # b))) = dq # escapeQuotes a @ [dq, dq] @ escapeQuotes b @ [dq]
   \<and> (dq \<notin> set a \<longrightarrow> escapeQuotes a = a)
   \<and> csvCell None = [dq, dq] \<and> csvCell (Some JNull) = [dq, dq]
   \<and> csvReadRecord (csvCell (Some (JStr s))) = Some [s]
   \<and> csvReadRecord (csvCell None) = Some [[]]
   \<and> csvReadRecord (csvCell (Some JNull)) = Some [[]]"
proof -
  have cell: "\<And>x. csvReadRecord (csvCell x) = Some [cellText x]"
    using csvRead_cell [of "[]" "[]" _ "[]"] by (simp add: csvReadRecord_def)
  show ?thesis
    by (simp add: cell escapeQuotes_plain)
       (simp add: csvCell_def cellText_def escapeQuotes_def)
qed

theorem csvCell_roundtrip_witness:
  "csvCell (Some (JStr (''say '' @ dq # ''hi'' @ dq # '', you'')))
     = dq # ''say '' @ [dq, dq] @ ''hi'' @ [dq, dq] @ '', you'' @ [dq]
   \<and> csvReadRecord (csvCell (Some (JStr (''say '' @ dq # ''hi'' @ dq # '', you''))))
     = Some [''say '' @ dq # ''hi'' @ dq # '', you'']"
proof -
  have plain: "escapeQuotes ''say '' = ''say ''" "escapeQuotes '', you'' = '', you''"
              "escapeQuotes ''hi'' = ''hi''"
    by (simp_all add: escapeQuotes_def dq_def)
  have quoted: "escapeQuotes (''hi'' @ dq # '', you'') = ''hi'' @ [dq, dq] @ '', you''"
    by (simp add: escapeQuotes_def dq_def)
  note t = csvCell_roundtrip [of "''say ''" "''hi'' @ dq # '', you''"
                                 "''say '' @ dq # ''hi'' @ dq # '', you''"]
  have c: "csvCell (Some (JStr (''say '' @ dq # ''hi'' @ dq # '', you'')))
             = dq # ''say '' @ [dq, dq] @ ''hi'' @ [dq, dq] @ '', you'' @ [dq]"
    using t [THEN conjunct1] by (simp only: plain quoted) simp
  have r: "csvReadRecord (csvCell (Some (JStr (''say '' @ dq # ''hi'' @ dq # '', you''))))
             = Some [''say '' @ dq # ''hi'' @ dq # '', you'']"
    by (rule t [THEN conjunct2, THEN conjunct2, THEN conjunct2, THEN conjunct2, THEN conjunct1])
  show ?thesis by (rule conjI [OF c r])
qed

subsection \<open>Precedence of the attribution sources\<close>

lemmas example_simps =
  examplePlatform_def exampleParseURL_def exampleOrder_def exampleLandingOrder_def
  extractUtmFromUrl_def extractUtmTry_def baseUrl_def emptyUtm_def
  extractUtmFromAttributes_def extractUtmFromAttributes0_def extractUtmFromAttributesWith_def
  attrValue_def attrValue0_def applyAttr_def setIfMatch_def utmFields_def getS_def orS_def
  orJ_def orElse_def toLowerCase_def toLowerChar_def
  spreadUtm_def setProp_def utmObject_def pickUtm_def map_add_def

text \<open>
  C1. The bulk normaliser \<open>mapOrderNodeToRow\<close> and the first revision's
  \<open>mapOrderToRow\<close> take each field from the landing page first, then from the referring
  page, then from the attributes, but the row that \<open>fetchAllOrdersREST\<close> builds does
  not: it never reads the referring page, and it copies the record of the attributes
  over the record of the landing page. For the example order, whose three sources give
  \<open>land\<close>, \<open>ref\<close> and \<open>note\<close>, the REST row has \<open>note\<close>; for the order with the
  landing page alone it has the empty string.
\<close>

theorem restRow_breaks_precedence:
  "(\<exists>r. restRow examplePlatform exampleOrder = Inr r \<and> r ''utm_source'' = Some (JStr ''note''))
   \<and> (\<exists>r. restRow examplePlatform exampleLandingOrder = Inr r \<and> r ''utm_source'' = Some (JStr []))
   \<and> (\<exists>r. mapOrderNodeToRow examplePlatform exampleOrder = Inr r
            \<and> r ''utm_source'' = Some (JStr ''land''))
   \<and> (\<exists>r. mapOrderToRow examplePlatform exampleOrder = Inr r
            \<and> r ''utm_source'' = Some (JStr ''land''))"
  by (simp add: restRow_def mapOrderNodeToRow_def mapOrderToRow_def example_simps)

subsection \<open>The count probe\<close>

lemma fetchOrdersCount_requests:
  "\<not> missingEnv pf \<Longrightarrow> fst (fetchOrdersCount pf a b) = [countUrl pf a b]"
  by (simp add: fetchOrdersCount_def Let_def split: sum.splits option.splits)

lemma fetchOrdersCount_unconfigured:
  "missingEnv pf \<Longrightarrow> fetchOrdersCount pf a b = ([], Inl MissingEnv)"
  by (simp add: fetchOrdersCount_def)

text \<open>
  C2, as the claim states it, fails: for a successful response whose body is the empty
  object, \<open>fetchOrdersCount\<close> returns 0 and does not fail.
\<close>

theorem fetchOrdersCount_missing_count_is_zero:
  "fetchOrdersCount (examplePlatform\<lparr>fetch := (\<lambda>u. Inr (okResponse (JObj []) None))\<rparr>)
      ''2025-01-01T00:00:00.000Z'' ''2025-01-31T23:59:59.000Z''
   = ([''https://shop.example/admin/api/2025-07/orders/count.json?status=any&created_at_min=2025-01-01T00:00:00.000Z&created_at_max=2025-01-31T23:59:59.000Z''],
      Inr (JNum 0))"
  by (simp add: fetchOrdersCount_def missingEnv_def countUrl_def examplePlatform_def
        okResponse_def orElse_def)

text \<open>
  C2, amended. With the store and the token set, \<open>fetchOrdersCount\<close> makes one request,
  to the count URL. For a successful response whose body is an object it returns the
  \<open>count\<close> of the body when that is truthy, and 0 when the body has no \<open>count\<close> or a
  falsy one; for a response that is not a success it fails with the status and the body.
\<close>

theorem fetchOrdersCount_single_request:
  assumes "\<not> missingEnv pf"
  shows "fst (fetchOrdersCount pf a b) = [countUrl pf a b]
       \<and> (fetch pf (countUrl pf a b) = Inr r \<and> respOk r \<and> respJson r = Some (JObj kvs) \<longrightarrow>
            snd (fetchOrdersCount pf a b)
              = Inr (case map_of kvs ''count'' of
                       None \<Rightarrow> JNum 0
                     | Some c \<Rightarrow> if truthy (Some c) then c else JNum 0))
       \<and> (fetch pf (countUrl pf a b) = Inr r \<and> \<not> respOk r \<longrightarrow>
            snd (fetchOrdersCount pf a b) = Inl (ShopifyCountError (respStatus r) (respBody r)))"
proof (intro conjI impI)
  show "fst (fetchOrdersCount pf a b) = [countUrl pf a b]"
    using assms by (rule fetchOrdersCount_requests)
next
  assume "fetch pf (countUrl pf a b) = Inr r \<and> respOk r \<and> respJson r = Some (JObj kvs)"
  then show "snd (fetchOrdersCount pf a b)
              = Inr (case map_of kvs ''count'' of
                       None \<Rightarrow> JNum 0
                     | Some c \<Rightarrow> if truthy (Some c) then c else JNum 0)"
    using assms by (simp add: fetchOrdersCount_def Let_def orElse_def split: option.splits)
next
  assume "fetch pf (countUrl pf a b) = Inr r \<and> \<not> respOk r"
  then show "snd (fetchOrdersCount pf a b) = Inl (ShopifyCountError (respStatus r) (respBody r))"
    using assms by (simp add: fetchOrdersCount_def Let_def)
qed

theorem fetchOrdersCount_single_request_witness:
  "fetchOrdersCount
      (examplePlatform\<lparr>fetch := (\<lambda>u. Inr (okResponse (JObj [(''count'', JNum 42)]) None))\<rparr>)
      ''x'' ''y''
   = ([''https://shop.example/admin/api/2025-07/orders/count.json?status=any&created_at_min=x&created_at_max=y''],
      Inr (JNum 42))"
proof -
  let ?pf = "examplePlatform\<lparr>fetch := (\<lambda>u. Inr (okResponse (JObj [(''count'', JNum 42)]) None))\<rparr>"
  have env: "\<not> missingEnv ?pf"
    by (simp add: missingEnv_def examplePlatform_def)
  have url: "countUrl ?pf ''x'' ''y''
      = ''https://shop.example/admin/api/2025-07/orders/count.json?status=any&created_at_min=x&created_at_max=y''"
    by (simp add: countUrl_def examplePlatform_def)
  note t = fetchOrdersCount_single_request
             [OF env, of "''x''" "''y''" "okResponse (JObj [(''count'', JNum 42)]) None"
                         "[(''count'', JNum 42)]"]
  have f: "fst (fetchOrdersCount ?pf ''x'' ''y'') = [countUrl ?pf ''x'' ''y'']"
    by (rule t [THEN conjunct1])
  have s: "snd (fetchOrdersCount ?pf ''x'' ''y'') = Inr (JNum 42)"
    using t [THEN conjunct2, THEN conjunct1] by (simp add: okResponse_def)
  show ?thesis
    using f s unfolding url by (simp add: prod_eq_iff)
qed

subsection \<open>Pagination\<close>

lemma pushOrders_rows:
  "restRows pf os = Inr rows \<Longrightarrow> int (length mapped) < cap \<Longrightarrow>
   pushOrders pf cap os mapped = Inr (take (nat cap) (mapped @ rows))"
proof (induction os arbitrary: mapped rows)
  case Nil
  then show ?case by simp
next
  case (Cons ord os)
  from Cons.prems(1) obtain r rs where r: "restRow pf ord = Inr r"
    and rs: "restRows pf os = Inr rs" and rows: "rows = r # rs"
    by (auto split: sum.splits)
  show ?case
  proof (cases "cap \<le> int (length (mapped @ [r]))")
    case True
    then have "nat cap = length mapped + 1" using Cons.prems(2) by simp
    then show ?thesis using True r rows by simp
  next
    case False
    then have "int (length (mapped @ [r])) < cap" by simp
    from Cons.IH [OF rs this] show ?thesis using False r rows by simp
  qed
qed

lemma pushPage_rows:
  "pageRows pf resp = Inr rows \<Longrightarrow> respJson resp = Some data \<Longrightarrow> int (length mapped) < cap \<Longrightarrow>
   pushPage pf cap data mapped = Inr (take (nat cap) (mapped @ rows))"
  by (auto simp: pageRows_def pushPage_def pushOrders_rows split: option.splits if_splits sum.splits)

lemma fetchPage_rows:
  assumes "fetch pf u = Inr resp" "respOk resp" "pageRows pf resp = Inr rows"
    and "int (length mapped) < cap"
  shows "fetchPage pf cap u mapped
           = Inr (take (nat cap) (mapped @ rows),
                  if cap \<le> int (length mapped + length rows) then None
                  else nextUrl (respLink resp))"
proof -
  from assms(3) obtain data where data: "respJson resp = Some data"
    by (auto simp: pageRows_def split: option.splits)
  have len: "cap \<le> int (length (take (nat cap) (mapped @ rows)))
               \<longleftrightarrow> cap \<le> int (length mapped + length rows)"
    using assms(4) by auto
  show ?thesis
    using assms(1,2) data pushPage_rows [OF assms(3) data assms(4)] len
    by (simp add: fetchPage_def)
qed

lemma fetchLoop_chain:
  "pagesChain pf (p # rest) \<Longrightarrow> int (length mapped) < cap \<Longrightarrow>
   fetchLoop pf cap (fst p) mapped reqs
     = Some (reqs @ map fst (take (pagesNeeded (cap - int (length mapped))
                                    (map (\<lambda>q. length (snd (snd q))) (p # rest)))
                                  (p # rest)),
             Inr (take (nat cap) (mapped @ chainRows (p # rest))))"
proof (induction rest arbitrary: p mapped reqs)
  case Nil
  obtain u resp rows where p: "p = (u, resp, rows)" by (cases p)
  from Nil.prems(1) have u: "u \<noteq> []" and f: "fetch pf u = Inr resp" and ok: "respOk resp"
    and rows: "pageRows pf resp = Inr rows" and nxt: "nextUrl (respLink resp) = None"
    by (simp_all add: p)
  show ?case
    using u nxt Nil.prems(2)
    by (subst fetchLoop.simps)
       (simp add: p fetchPage_rows [OF f ok rows Nil.prems(2)] chainRows_def)
next
  case (Cons q rest)
  obtain u resp rows where p: "p = (u, resp, rows)" by (cases p)
  from Cons.prems(1) have u: "u \<noteq> []" and f: "fetch pf u = Inr resp" and ok: "respOk resp"
    and rows: "pageRows pf resp = Inr rows" and nxt: "nextUrl (respLink resp) = Some (fst q)"
    and chain: "pagesChain pf (q # rest)"
    by (simp_all add: p)
  show ?case
  proof (cases "cap \<le> int (length mapped + length rows)")
    case True
    then show ?thesis
      using u Cons.prems(2)
      by (subst fetchLoop.simps)
         (simp add: p fetchPage_rows [OF f ok rows Cons.prems(2)] chainRows_def)
  next
    case False
    then have less: "int (length (mapped @ rows)) < cap" by simp
    have full: "take (nat cap) (mapped @ rows) = mapped @ rows"
      using less by simp
    have step: "fetchLoop pf cap u mapped reqs = fetchLoop pf cap (fst q) (mapped @ rows) (reqs @ [u])"
      using u False nxt
      by (subst fetchLoop.simps)
         (simp add: fetchPage_rows [OF f ok rows Cons.prems(2)] full)
    have needed: "pagesNeeded (cap - int (length mapped))
                    (map (\<lambda>q. length (snd (snd q))) (p # q # rest))
                  = Suc (pagesNeeded (cap - int (length (mapped @ rows)))
                           (map (\<lambda>q. length (snd (snd q))) (q # rest)))"
      using False by (simp add: p algebra_simps)
    show ?thesis
      unfolding needed using step Cons.IH [OF chain less, of "reqs @ [u]"]
      by (simp add: p chainRows_def)
  qed
qed

lemma pagesNeeded_le: "pagesNeeded cap ns \<le> length ns"
  by (induction ns arbitrary: cap) auto

lemma pagesNeeded_pos: "ns \<noteq> [] \<Longrightarrow> 1 \<le> pagesNeeded cap ns"
  by (cases ns) auto

lemma pagesNeeded_before:
  "0 < cap \<Longrightarrow> j < pagesNeeded cap ns \<Longrightarrow> int (sum_list (take j ns)) < cap"
proof (induction ns arbitrary: cap j)
  case Nil
  then show ?case by simp
next
  case (Cons n ns)
  show ?case
  proof (cases j)
    case 0
    then show ?thesis using Cons.prems by simp
  next
    case (Suc i)
    then have small: "\<not> cap \<le> int n" and i: "i < pagesNeeded (cap - int n) ns"
      using Cons.prems(2) by (auto split: if_splits)
    from small have "0 < cap - int n" by simp
    from Cons.IH [OF this i] show ?thesis using Suc by simp
  qed
qed

lemma pagesNeeded_reached:
  "pagesNeeded cap ns < length ns \<Longrightarrow> cap \<le> int (sum_list (take (pagesNeeded cap ns) ns))"
proof (induction ns arbitrary: cap)
  case Nil
  then show ?case by simp
next
  case (Cons n ns)
  show ?case
  proof (cases "cap \<le> int n")
    case True
    then show ?thesis by simp
  next
    case False
    then have "pagesNeeded (cap - int n) ns < length ns" using Cons.prems by simp
    from Cons.IH [OF this] show ?thesis using False by simp
  qed
qed

lemma rowsBefore_sum:
  "rowsBefore j pages = sum_list (take j (map (\<lambda>q. length (snd (snd q))) pages))"
  by (simp add: rowsBefore_def chainRows_def length_concat take_map comp_def)

text \<open>
  C3, as the claim states it, fails for a cap of 0: the cap is tested after a row is
  pushed, so one request is made and one row is returned.
\<close>

theorem fetchAllOrdersREST_cap_zero:
  "map_option (\<lambda>(reqs, res). (length reqs, map_sum id length res))
     (fetchAllOrdersREST
        (examplePlatform\<lparr>fetch := (\<lambda>u. Inr (okResponse
            (JObj [(''orders'', JArr [exampleLandingOrder, exampleOrder])]) None))\<rparr>)
        ''x'' ''y'' 0)
   = Some (1, Inr 1)"
  by (simp add: fetchAllOrdersREST_def missingEnv_def ordersUrl_def fetchLoop.simps
        fetchPage_def pushPage_def andGet_def nextUrl_def okResponse_def restRow_def
        example_simps)

text \<open>
  C3, amended. Let the upstream hold a sequence of pages, the first at the URL of the
  initial request, and let the cap be at least 1. Then \<open>fetchAllOrdersREST\<close> returns
  the rows of the pages in order, cut at the cap. It requests the first \<open>k\<close> pages, one
  after the other, for some \<open>k\<close> from 1 to the number of pages: before each request
  fewer rows than the cap had been accumulated, and when pages are left unrequested the
  cap had been reached with the last one requested.
\<close>

theorem fetchAllOrdersREST_pagination:
  assumes "\<not> missingEnv pf"
    and "pagesChain pf (p # rest)"
    and "fst p = ordersUrl pf a b"
    and "1 \<le> cap"
  shows "\<exists>k. fetchAllOrdersREST pf a b cap
               = Some (map fst (take k (p # rest)), Inr (take (nat cap) (chainRows (p # rest))))
           \<and> 1 \<le> k \<and> k \<le> length (p # rest)
           \<and> (\<forall>j < k. int (rowsBefore j (p # rest)) < cap)
           \<and> (k < length (p # rest) \<longrightarrow> cap \<le> int (rowsBefore k (p # rest)))"
proof -
  let ?ns = "map (\<lambda>q. length (snd (snd q))) (p # rest)"
  let ?k = "pagesNeeded cap ?ns"
  have "fetchLoop pf cap (fst p) [] [] 
          = Some ([] @ map fst (take (pagesNeeded (cap - int (length ([]::row list))) ?ns) (p # rest)),
                  Inr (take (nat cap) ([] @ chainRows (p # rest))))"
    using assms(2,4) by (intro fetchLoop_chain) simp_all
  then have run: "fetchAllOrdersREST pf a b cap
               = Some (map fst (take ?k (p # rest)), Inr (take (nat cap) (chainRows (p # rest))))"
    using assms(1,3) by (simp add: fetchAllOrdersREST_def)
  have pos: "1 \<le> ?k" by (rule pagesNeeded_pos) simp
  have le: "?k \<le> length (p # rest)" using pagesNeeded_le [of cap ?ns] by simp
  have before: "\<forall>j < ?k. int (rowsBefore j (p # rest)) < cap"
    using assms(4) by (auto simp: rowsBefore_sum intro: pagesNeeded_before)
  have reached: "?k < length (p # rest) \<longrightarrow> cap \<le> int (rowsBefore ?k (p # rest))"
    using pagesNeeded_reached [of cap ?ns] by (simp add: rowsBefore_sum)
  from run pos le before reached show ?thesis by blast
qed

theorem fetchAllOrdersREST_pagination_witness:
  "map_option (\<lambda>(reqs, res). (reqs, map_sum id length res))
     (fetchAllOrdersREST (examplePlatform\<lparr>fetch := exampleFetch\<rparr>) ''x'' ''y'' 1)
   = Some ([''https://shop.example/admin/api/2025-07/orders.json?status=any&limit=250&created_at_min=x&created_at_max=y''],
           Inr 1)"
proof -
  let ?pf = "examplePlatform\<lparr>fetch := exampleFetch\<rparr>"
  let ?u1 = "ordersUrl ?pf ''x'' ''y''"
  let ?r1 = "okResponse (JObj [(''orders'', JArr [exampleOrder])])
               (Some (''<'' @ examplePage2Url @ ''>; '' @ relNext))"
  let ?r2 = "okResponse (JObj [(''orders'', JArr [exampleLandingOrder])]) None"
  have u1: "?u1 = ''https://shop.example/admin/api/2025-07/orders.json?status=any&limit=250&created_at_min=x&created_at_max=y''"
    by (simp add: ordersUrl_def examplePlatform_def)
  obtain row1 where row1: "restRow ?pf exampleOrder = Inr row1"
    by (simp add: restRow_def example_simps)
  obtain row2 where row2: "restRow ?pf exampleLandingOrder = Inr row2"
    by (simp add: restRow_def example_simps)
  let ?pages = "[(?u1, ?r1, [row1]), (examplePage2Url, ?r2, [row2])]"
  have env: "\<not> missingEnv ?pf"
    by (simp add: missingEnv_def examplePlatform_def)
  have nxt: "nextUrl (Some (''<'' @ examplePage2Url @ ''>; '' @ relNext)) = Some examplePage2Url"
    by (simp add: nextUrl_def examplePage2Url_def relNext_def dq_def)
  have chain: "pagesChain ?pf ((?u1, ?r1, [row1]) # [(examplePage2Url, ?r2, [row2])])"
    using row1 row2 nxt
    by (simp add: u1 exampleFetch_def examplePage2Url_def okResponse_def pageRows_def andGet_def
          nextUrl_def)
  from fetchAllOrdersREST_pagination [OF env chain, of "''x''" "''y''" 1]
  obtain k where run: "fetchAllOrdersREST ?pf ''x'' ''y'' 1
        = Some (map fst (take k ?pages), Inr (take (nat 1) (chainRows ?pages)))"
    and pos: "1 \<le> k" and before: "\<forall>j < k. int (rowsBefore j ?pages) < 1"
    by auto
  have "k \<le> 1"
  proof (rule ccontr)
    assume "\<not> k \<le> 1"
    then have "int (rowsBefore 1 ?pages) < 1" using before by simp
    then show False by (simp add: rowsBefore_def chainRows_def)
  qed
  with pos have k: "k = 1" by simp
  show ?thesis
    using run unfolding k by (simp add: u1 chainRows_def)
qed

subsection \<open>The bulk download\<close>

lemma extractUtmFromUrl_Inr: "\<exists>out. extractUtmFromUrl shop parse u = Inr out"
  by (simp add: extractUtmFromUrl_def split: sum.splits)

lemma attrsArray_ok: "list_all attrOk as \<Longrightarrow> \<exists>out'. attrsArray val as out = Inr out'"
proof (induction as arbitrary: out)
  case Nil
  then show ?case by simp
next
  case (Cons a as)
  then obtain kvs s where a: "a = JObj kvs"
    and nm: "orJ (orJ (map_of kvs ''name'') (map_of kvs ''key'')) (Some (JStr [])) = Some (JStr s)"
    by (auto simp: attrOk_def split: json.splits option.splits)
  from Cons have "\<And>out. \<exists>out'. attrsArray val as out = Inr out'" by simp
  then show ?case by (simp add: a nm Let_def)
qed

lemma mapOrderNodeToRow_ok:
  assumes "orderShaped node"
  shows "\<exists>r. mapOrderNodeToRow pf node = Inr r"
proof -
  from assms obtain kvs where node: "node = JObj kvs"
    by (auto simp: orderShaped_def split: json.splits)
  let ?attrs = "orJ (orJ (orJ (jget node ''noteAttributes'') (jget node ''note_attributes''))
                         (jget node ''attributes'')) (jget node ''attrs'')"
  have "\<exists>noteU. extractUtmFromAttributes ?attrs = Inr noteU"
    using assms attrsArray_ok [of _ attrValue emptyUtm]
    by (auto simp: node orderShaped_def extractUtmFromAttributes_def
          extractUtmFromAttributesWith_def split: option.splits json.splits)
  then obtain noteU where n: "extractUtmFromAttributes ?attrs = Inr noteU" ..
  obtain landingU where l: "extractUtmFromUrl (SHOP pf) (parseURL pf)
      (Some (orElse (orJ (orJ (jget node ''landingSite'') (jget node ''landing_site''))
                         (jget node ''landingSiteUrl'')) (JStr []))) = Inr landingU"
    using extractUtmFromUrl_Inr by blast
  obtain referringU where r: "extractUtmFromUrl (SHOP pf) (parseURL pf)
      (Some (orElse (orJ (jget node ''referringSite'') (jget node ''referring_site'')) (JStr [])))
       = Inr referringU"
    using extractUtmFromUrl_Inr by blast
  have "node \<noteq> JNull" by (simp add: node)
  then show ?thesis
    by (simp add: mapOrderNodeToRow_def Let_def l r n)
qed

lemma nodeRow_ok: "orderShaped n \<Longrightarrow> mapOrderNodeToRow pf n = Inr r \<Longrightarrow> nodeRow pf n = [r]"
  by (simp add: nodeRow_def)

lemma orderShaped_truthy: "orderShaped n \<Longrightarrow> truthy (Some n)"
  by (auto simp: orderShaped_def split: json.splits)

lemma edgeRows_shaped:
  "list_all orderShaped ns \<Longrightarrow>
   edgeRows pf (map (\<lambda>n. JObj [(''node'', n)]) ns) = Inr (concat (map (nodeRow pf) ns))"
proof (induction ns)
  case Nil
  then show ?case by simp
next
  case (Cons n ns)
  then have sh: "orderShaped n" by simp
  from mapOrderNodeToRow_ok [OF sh] obtain r where r: "mapOrderNodeToRow pf n = Inr r" ..
  show ?case
    using Cons orderShaped_truthy [OF sh] r
    by (simp add: andGet_def nodeRow_def)
qed

lemma lineRows_shaped:
  assumes "lineOk sh" and "lineJson sh = Some parsed"
  shows "lineRows pf parsed = Inr (lineRowsOf pf sh)"
proof (cases sh)
  case (Edges ns)
  then show ?thesis
    using assms by (auto simp: lineRows_def lineRowsOf_def andGet_def edgeRows_shaped)
next
  case (Node n)
  with assms have sh: "orderShaped n" by simp
  from mapOrderNodeToRow_ok [OF sh] obtain r where r: "mapOrderNodeToRow pf n = Inr r" ..
  show ?thesis
    using assms Node orderShaped_truthy [OF sh] r
    by (auto simp: lineRows_def lineRowsOf_def andGet_def wrappedNode_def nodeRow_def)
next
  case (Bare n)
  with assms have sh: "orderShaped n"
    and ne: "\<not> truthy (andGet (andGet (Some n) ''orders'') ''edges'')"
    and nn: "\<not> truthy (jget n ''node'')" and p: "parsed = n"
    by simp_all
  from mapOrderNodeToRow_ok [OF sh] obtain r where r: "mapOrderNodeToRow pf n = Inr r" ..
  have w: "wrappedNode n = n"
    using nn orderShaped_truthy [OF sh] by (auto simp: wrappedNode_def andGet_def split: option.splits)
  show ?thesis
  proof (cases "andGet (andGet (Some n) ''orders'') ''edges''")
    case None
    then show ?thesis
      using r Bare by (simp add: p lineRows_def lineRowsOf_def w nodeRow_def)
  next
    case (Some edges)
    then have "\<not> truthy (Some edges)" using ne by simp
    then show ?thesis
      using Some r Bare by (simp add: p lineRows_def lineRowsOf_def w nodeRow_def)
  qed
qed (use assms in simp_all)

lemma writeRows_all:
  "writeRows eol 0 rows count out
     = (count + length rows, out @ map (\<lambda>r. csvLine columns r @ eol) rows)"
  by (induction rows arbitrary: count out) (simp_all add: Let_def)


lemma writeRows_preview:
  "int count < preview \<Longrightarrow>
   writeRows eol preview rows count out
     = (count + length (take (nat preview - count) rows),
        out @ map (\<lambda>r. csvLine columns r @ eol) (take (nat preview - count) rows))"
proof (induction rows arbitrary: count out)
  case Nil
  then show ?case by simp
next
  case (Cons r rows)
  from Cons.prems obtain m where m: "nat preview - count = Suc m"
    by (cases "nat preview - count") auto
  show ?case
  proof (cases "preview \<le> int (count + 1)")
    case True
    then have "m = 0" using m Cons.prems by linarith
    then show ?thesis using True Cons.prems m by (simp add: Let_def)
  next
    case False
    then have less: "int (count + 1) < preview" by simp
    have m': "nat preview - (count + 1) = m" using m by simp
    from Cons.IH [OF less, of "out @ [csvLine columns r @ eol]"]
    show ?thesis using False m m' by (simp add: Let_def)
  qed
qed



lemma lineMatches_None:
  "lineMatches pf t sh \<Longrightarrow> lineJson sh = None \<Longrightarrow>
   (t = [] \<or> trimStr t = [] \<or> jsonParse pf t = None) \<and> lineRowsOf pf sh = []"
  by (cases sh) (auto simp: lineMatches_def lineRowsOf_def)

lemma lineMatches_Some:
  "lineMatches pf t sh \<Longrightarrow> lineJson sh = Some parsed \<Longrightarrow>
   t \<noteq> [] \<and> trimStr t \<noteq> [] \<and> jsonParse pf t = Some parsed \<and> lineOk sh"
  by (cases sh) (auto simp: lineMatches_def)

lemma bulkLines_skip:
  "t = [] \<or> trimStr t = [] \<or> jsonParse pf t = None \<Longrightarrow>
   bulkLines pf eol preview (t # ts) count out nread
     = bulkLines pf eol preview ts count out (nread + 1)"
  by auto

lemma bulkLines_line:
  "t \<noteq> [] \<Longrightarrow> trimStr t \<noteq> [] \<Longrightarrow> jsonParse pf t = Some parsed \<Longrightarrow>
   lineRows pf parsed = Inr rows \<Longrightarrow>
   bulkLines pf eol preview (t # ts) count out nread
     = (if preview \<noteq> 0 \<and> preview \<le> int (fst (writeRows eol preview rows count out))
        then (snd (writeRows eol preview rows count out), nread + 1, None)
        else bulkLines pf eol preview ts (fst (writeRows eol preview rows count out))
               (snd (writeRows eol preview rows count out)) (nread + 1))"
  by (simp add: case_prod_beta)


lemma bulkLines_all:
  "\<forall>l \<in> set lns. lineMatches pf (fst l) (snd l) \<Longrightarrow>
   bulkLines pf eol 0 (map fst lns) count out nread
     = (out @ map (\<lambda>r. csvLine columns r @ eol) (fileRows pf lns), nread + length lns, None)"
proof (induction lns arbitrary: count out nread)
  case Nil
  then show ?case by (simp add: fileRows_def)
next
  case (Cons l lns)
  obtain t sh where l: "l = (t, sh)" by (cases l)
  from Cons.prems have m: "lineMatches pf t sh"
    and rest: "\<forall>l \<in> set lns. lineMatches pf (fst l) (snd l)"
    by (simp_all add: l)
  note IH = Cons.IH [OF rest]
  have rows: "fileRows pf (l # lns) = lineRowsOf pf sh @ fileRows pf lns"
    by (simp add: l fileRows_def)
  show ?case
  proof (cases "lineJson sh")
    case None
    from lineMatches_None [OF m None]
    have skip: "t = [] \<or> trimStr t = [] \<or> jsonParse pf t = None"
      and none: "lineRowsOf pf sh = []" by simp_all
    have "bulkLines pf eol 0 (map fst (l # lns)) count out nread
            = bulkLines pf eol 0 (map fst lns) count out (nread + 1)"
      using bulkLines_skip [OF skip] by (simp only: l list.map fst_conv)
    then show ?thesis by (simp add: IH rows none)
  next
    case (Some parsed)
    from lineMatches_Some [OF m Some]
    have nb: "t \<noteq> []" "trimStr t \<noteq> []" and p: "jsonParse pf t = Some parsed" and ok: "lineOk sh"
      by simp_all
    have "bulkLines pf eol 0 (map fst (l # lns)) count out nread
            = bulkLines pf eol 0 (map fst lns) (count + length (lineRowsOf pf sh))
                (out @ map (\<lambda>r. csvLine columns r @ eol) (lineRowsOf pf sh)) (nread + 1)"
      using bulkLines_line [OF nb p lineRows_shaped [OF ok Some], of eol 0]
      by (simp only: l list.map fst_conv writeRows_all) simp
    then show ?thesis by (simp add: IH rows)
  qed
qed


lemma bulkLines_preview:
  "\<forall>l \<in> set lns. lineMatches pf (fst l) (snd l) \<Longrightarrow> int count < preview \<Longrightarrow>
   preview \<le> int (count + length (fileRows pf lns)) \<Longrightarrow>
   \<exists>k \<le> length lns.
     bulkLines pf eol preview (map fst lns @ later) count out nread
       = (out @ map (\<lambda>r. csvLine columns r @ eol) (take (nat preview - count) (fileRows pf lns)),
          nread + k, None)"
proof (induction lns arbitrary: count out nread)
  case Nil
  then show ?case by (simp add: fileRows_def)
next
  case (Cons l lns)
  obtain t sh where l: "l = (t, sh)" by (cases l)
  from Cons.prems(1) have m: "lineMatches pf t sh"
    and rest: "\<forall>l \<in> set lns. lineMatches pf (fst l) (snd l)"
    by (simp_all add: l)
  have rows: "fileRows pf (l # lns) = lineRowsOf pf sh @ fileRows pf lns"
    by (simp add: l fileRows_def)
  have lines: "map fst (l # lns) @ later = t # (map fst lns @ later)"
    by (simp add: l)
  let ?n = "nat preview - count"
  let ?rs = "lineRowsOf pf sh"
  let ?chunk = "\<lambda>r. csvLine columns r @ eol"
  show ?case
  proof (cases "lineJson sh")
    case None
    from lineMatches_None [OF m None]
    have skip: "t = [] \<or> trimStr t = [] \<or> jsonParse pf t = None"
      and none: "?rs = []" by simp_all
    from Cons.prems(3) have "preview \<le> int (count + length (fileRows pf lns))"
      by (simp add: rows none)
    from Cons.IH [OF rest Cons.prems(2) this, of out "nread + 1"]
    obtain k where k: "k \<le> length lns"
      and run: "bulkLines pf eol preview (map fst lns @ later) count out (nread + 1)
             = (out @ map ?chunk (take ?n (fileRows pf lns)), nread + 1 + k, None)"
      by auto
    have "bulkLines pf eol preview (map fst (l # lns) @ later) count out nread
            = (out @ map ?chunk (take ?n (fileRows pf (l # lns))), nread + Suc k, None)"
      unfolding lines bulkLines_skip [OF skip] run by (simp add: rows none)
    with k show ?thesis by (intro exI [of _ "Suc k"]) simp
  next
    case (Some parsed)
    from lineMatches_Some [OF m Some]
    have nb: "t \<noteq> []" "trimStr t \<noteq> []" and p: "jsonParse pf t = Some parsed" and ok: "lineOk sh"
      by simp_all
    note step = bulkLines_line [OF nb p lineRows_shaped [OF ok Some], of eol preview]
    note wr = writeRows_preview [OF Cons.prems(2), of eol ?rs]
    have pos: "preview \<noteq> 0" using Cons.prems(2) by auto
    show ?thesis
    proof (cases "preview \<le> int (count + length ?rs)")
      case True
      then have "?n \<le> length ?rs" by linarith
      then have tk: "take ?n (?rs @ fileRows pf lns) = take ?n ?rs"
        and len: "length (take ?n ?rs) = ?n" by simp_all
      have w: "writeRows eol preview ?rs count out = (count + ?n, out @ map ?chunk (take ?n ?rs))"
        using wr len by simp
      have reached: "preview \<le> int (count + ?n)"
        using Cons.prems(2) by linarith
      have out_eq: "take ?n (fileRows pf (l # lns)) = take ?n ?rs"
        unfolding rows by (rule tk)
      have "bulkLines pf eol preview (map fst (l # lns) @ later) count out nread
              = (out @ map ?chunk (take ?n (fileRows pf (l # lns))), nread + 1, None)"
        unfolding lines step w out_eq using pos reached by simp
      then show ?thesis by (intro exI [of _ 1]) simp
    next
      case False
      then have short: "length ?rs < ?n" by linarith
      then have tk: "take ?n ?rs = ?rs" by simp
      have w: "writeRows eol preview ?rs count out = (count + length ?rs, out @ map ?chunk ?rs)"
        using wr tk by simp
      have less: "int (count + length ?rs) < preview" using False by simp
      have more_rows: "preview \<le> int ((count + length ?rs) + length (fileRows pf lns))"
        using Cons.prems(3) by (simp add: rows add.assoc)
      from Cons.IH [OF rest less more_rows, of "out @ map ?chunk ?rs" "nread + 1"]
      obtain k where k: "k \<le> length lns"
        and run: "bulkLines pf eol preview (map fst lns @ later) (count + length ?rs)
                    (out @ map ?chunk ?rs) (nread + 1)
             = ((out @ map ?chunk ?rs)
                  @ map ?chunk (take (nat preview - (count + length ?rs)) (fileRows pf lns)),
                nread + 1 + k, None)"
        by auto
      have split: "take ?n (?rs @ fileRows pf lns)
                     = ?rs @ take (nat preview - (count + length ?rs)) (fileRows pf lns)"
        using short by simp
      have out_eq: "take ?n (fileRows pf (l # lns))
                      = ?rs @ take (nat preview - (count + length ?rs)) (fileRows pf lns)"
        unfolding rows by (rule split)
      have "bulkLines pf eol preview (map fst (l # lns) @ later) count out nread
              = (out @ map ?chunk (take ?n (fileRows pf (l # lns))), nread + Suc k, None)"
        unfolding lines step w out_eq using False run by simp
      with k show ?thesis by (intro exI [of _ "Suc k"]) simp
    qed
  qed
qed


lemma nodeRow_length: "orderShaped n \<Longrightarrow> length (nodeRow pf n) = 1"
proof -
  assume "orderShaped n"
  from mapOrderNodeToRow_ok [OF this] obtain r where "mapOrderNodeToRow pf n = Inr r" ..
  then show ?thesis by (simp add: nodeRow_def)
qed

lemma nodeRows_length:
  "list_all orderShaped ns \<Longrightarrow> length (concat (map (nodeRow pf) ns)) = length ns"
  by (induction ns) (simp_all add: nodeRow_length)

lemma lineRowsOf_length:
  "lineMatches pf t sh \<Longrightarrow> length (lineRowsOf pf sh) = length (lineNodes sh)"
  by (cases sh) (simp_all add: lineMatches_def lineRowsOf_def nodeRow_length nodeRows_length)

lemma fileRows_length:
  "\<forall>l \<in> set lns. lineMatches pf (fst l) (snd l) \<Longrightarrow>
   length (fileRows pf lns) = length (concat (map (\<lambda>l. lineNodes (snd l)) lns))"
proof (induction lns)
  case Nil
  then show ?case by (simp add: fileRows_def)
next
  case (Cons l lns)
  then have "length (lineRowsOf pf (snd l)) = length (lineNodes (snd l))"
    by (simp add: lineRowsOf_length [of pf "fst l"])
  with Cons show ?case by (simp add: fileRows_def)
qed

lemma fileRows_without_malformed:
  "fileRows pf lns = fileRows pf (filter (\<lambda>l. snd l \<noteq> Malformed) lns)"
  by (induction lns) (auto simp: fileRows_def lineRowsOf_def)

text \<open>
  C6. Take a bulk export whose lines are each blank, malformed, a wrapped collection of
  edges with order-shaped nodes, a wrapped order-shaped node, or a bare order-shaped
  object. Downloaded without a preview limit, every line is read, no exception ends the
  stream, and after the header one record is written for each node of the well-formed
  lines, in the order of the file, the record of the row \<open>mapOrderNodeToRow\<close> gives for
  the node. The malformed lines add nothing and take nothing away: the rows are those
  of the file without them.
\<close>

theorem bulkDownload_skips_malformed:
  assumes "\<forall>l \<in> set lns. lineMatches pf (fst l) (snd l)"
  shows "bulkDownloadWith eol pf 0 (map fst lns)
           = (map (\<lambda>s. s @ eol) (joinWith '','' columns # map (csvLine columns) (fileRows pf lns)),
              length lns, None)
       \<and> length (fileRows pf lns) = length (concat (map (\<lambda>l. lineNodes (snd l)) lns))
       \<and> fileRows pf lns = fileRows pf (filter (\<lambda>l. snd l \<noteq> Malformed) lns)"
  using bulkLines_all [OF assms, of eol 0 "[joinWith '','' columns @ eol]" 0]
    fileRows_length [OF assms] fileRows_without_malformed [of pf lns]
  by (simp add: bulkDownloadWith_def comp_def)


theorem bulkDownload_skips_malformed_witness:
  "(case bulkDownload (examplePlatform\<lparr>jsonParse := exampleJsonParse\<rparr>) 0
           [exampleEdgesLine, exampleCutLine, exampleNodeLine, exampleBareLine] of
      (out, nread, err) \<Rightarrow> (length out, nread, err))
   = (5, 4, None)"
proof -
  let ?pf = "examplePlatform\<lparr>jsonParse := exampleJsonParse\<rparr>"
  let ?lns = "[(exampleEdgesLine,
                  Edges [JObj [(''name'', JStr ''#1003'')], JObj [(''name'', JStr ''#1004'')]]),
               (exampleCutLine, Malformed),
               (exampleNodeLine, Node (JObj [(''name'', JStr ''#1002'')])),
               (exampleBareLine,
                  Bare (JObj [(''name'', JStr ''#1001''),
                              (''landingSite'', JStr ''/?utm_source=land'')]))]"
  have blank: "trimStr exampleEdgesLine \<noteq> []" "trimStr exampleCutLine \<noteq> []"
              "trimStr exampleNodeLine \<noteq> []" "trimStr exampleBareLine \<noteq> []"
    by (simp_all add: trimStr_def isWhite_def exampleEdgesLine_def exampleCutLine_def
          exampleNodeLine_def exampleBareLine_def)
  have ne: "exampleEdgesLine \<noteq> []" "exampleCutLine \<noteq> []" "exampleNodeLine \<noteq> []"
           "exampleBareLine \<noteq> []"
    by (simp_all add: exampleEdgesLine_def exampleCutLine_def exampleNodeLine_def
          exampleBareLine_def)
  have parse: "exampleJsonParse exampleCutLine = None"
    "exampleJsonParse exampleEdgesLine
       = lineJson (Edges [JObj [(''name'', JStr ''#1003'')], JObj [(''name'', JStr ''#1004'')]])"
    "exampleJsonParse exampleNodeLine = lineJson (Node (JObj [(''name'', JStr ''#1002'')]))"
    "exampleJsonParse exampleBareLine
       = lineJson (Bare (JObj [(''name'', JStr ''#1001''),
                               (''landingSite'', JStr ''/?utm_source=land'')]))"
    by (simp_all add: exampleJsonParse_def exampleEdgesLine_def exampleCutLine_def
          exampleNodeLine_def exampleBareLine_def)
  have ok: "\<forall>l \<in> set ?lns. lineMatches ?pf (fst l) (snd l)"
    by (simp add: lineMatches_def blank ne parse examplePlatform_def orderShaped_def orJ_def
          andGet_def)
  note t = bulkDownload_skips_malformed [OF ok, of eolServer]
  have run: "bulkDownloadWith eolServer ?pf 0 (map fst ?lns)
               = (map (\<lambda>s. s @ eolServer)
                    (joinWith '','' columns # map (csvLine columns) (fileRows ?pf ?lns)),
                  length ?lns, None)"
    by (rule t [THEN conjunct1])
  have len: "length (fileRows ?pf ?lns) = 4"
    using t [THEN conjunct2, THEN conjunct1] by simp
  show ?thesis
    using run len by (simp add: bulkDownload_def)
qed

lemma bulkDownload_preview_rows:
  assumes "\<forall>l \<in> set lns. lineMatches pf (fst l) (snd l)"
    and "1 \<le> preview" and "preview \<le> int (length (fileRows pf lns))"
  shows "\<exists>k \<le> length lns.
           bulkDownloadWith eol pf preview (map fst lns @ later)
             = (map (\<lambda>s. s @ eol)
                  (joinWith '','' columns
                     # map (csvLine columns) (take (nat preview) (fileRows pf lns))),
                k, None)"
proof -
  have "int (0::nat) < preview" using assms(2) by simp
  moreover have "preview \<le> int (0 + length (fileRows pf lns))" using assms(3) by simp
  ultimately obtain k where "k \<le> length lns"
    and "bulkLines pf eol preview (map fst lns @ later) 0 [joinWith '','' columns @ eol] 0
       = ([joinWith '','' columns @ eol]
            @ map (\<lambda>r. csvLine columns r @ eol) (take (nat preview - 0) (fileRows pf lns)),
          0 + k, None)"
    using bulkLines_preview [OF assms(1), of 0 preview eol later "[joinWith '','' columns @ eol]" 0]
    by blast
  then show ?thesis
    by (intro exI [of _ k]) (simp add: bulkDownloadWith_def comp_def)
qed

text \<open>
  C7. With a preview limit \<open>n\<close> of at least 1 and an export of at least \<open>n\<close> rows the
  handler writes the header and the records of the first \<open>n\<close> rows and leaves the lines
  after the one that gave the \<open>n\<close>-th row unread (\<open>bulkDownload_preview_rows\<close>). What it
  writes after the header and after each record, though, is not a line feed but a
  backslash and the letter n. With a limit of 3 and the four example lines, the output
  is the header and three records, three of the four lines were read, and the output
  holds no line feed: it is one line. The copies of the handler in README.md end each
  of the four with a line feed.
\<close>

theorem bulkDownload_preview_one_line:
  "bulkDownload (examplePlatform\<lparr>jsonParse := exampleJsonParse\<rparr>) 3
       [exampleEdgesLine, exampleCutLine, exampleNodeLine, exampleBareLine]
     = (map (\<lambda>s. s @ [CHR 0x5C, CHR ''n''])
          [''order_number,created_at,utm_source,utm_medium,utm_campaign,utm_term,utm_content'',
           joinWith '','' (map (\<lambda>v. dq # v @ [dq]) [''#1003'', [], [], [], [], [], []]),
           joinWith '','' (map (\<lambda>v. dq # v @ [dq]) [''#1004'', [], [], [], [], [], []]),
           joinWith '','' (map (\<lambda>v. dq # v @ [dq]) [''#1002'', [], [], [], [], [], []])],
        3, None)
   \<and> CHR 0x0A \<notin> set (concat (fst (bulkDownload (examplePlatform\<lparr>jsonParse := exampleJsonParse\<rparr>) 3
                                   [exampleEdgesLine, exampleCutLine, exampleNodeLine, exampleBareLine])))
   \<and> fst (bulkDownloadWith eolReadme (examplePlatform\<lparr>jsonParse := exampleJsonParse\<rparr>) 3
            [exampleEdgesLine, exampleCutLine, exampleNodeLine, exampleBareLine])
     = map (\<lambda>s. s @ [CHR 0x0A])
          [''order_number,created_at,utm_source,utm_medium,utm_campaign,utm_term,utm_content'',
           joinWith '','' (map (\<lambda>v. dq # v @ [dq]) [''#1003'', [], [], [], [], [], []]),
           joinWith '','' (map (\<lambda>v. dq # v @ [dq]) [''#1004'', [], [], [], [], [], []]),
           joinWith '','' (map (\<lambda>v. dq # v @ [dq]) [''#1002'', [], [], [], [], [], []])]"
proof -
  let ?pf = "examplePlatform\<lparr>jsonParse := exampleJsonParse\<rparr>"
  let ?lns = "[exampleEdgesLine, exampleCutLine, exampleNodeLine, exampleBareLine]"
  let ?recs = "[''order_number,created_at,utm_source,utm_medium,utm_campaign,utm_term,utm_content'',
           joinWith '','' (map (\<lambda>v. dq # v @ [dq]) [''#1003'', [], [], [], [], [], []]),
           joinWith '','' (map (\<lambda>v. dq # v @ [dq]) [''#1004'', [], [], [], [], [], []]),
           joinWith '','' (map (\<lambda>v. dq # v @ [dq]) [''#1002'', [], [], [], [], [], []])]"
  have run: "\<And>eol. bulkDownloadWith eol ?pf 3 ?lns = (map (\<lambda>s. s @ eol) ?recs, 3, None)"
    by (simp add: bulkDownloadWith_def trimStr_def isWhite_def exampleJsonParse_def
          exampleEdgesLine_def exampleCutLine_def exampleNodeLine_def exampleBareLine_def
          lineRows_def wrappedNode_def andGet_def mapOrderNodeToRow_def Let_def
          csvLine_def csvCell_def cellText_def escapeQuotes_def columns_def dq_def
          example_simps)
  have lf: "CHR 0x0A \<notin> set (concat (map (\<lambda>s. s @ eolServer) ?recs))"
    by (simp add: eolServer_def dq_def)
  show ?thesis
    using lf by (simp add: bulkDownload_def run eolServer_def eolReadme_def)
qed

subsection \<open>The order of the rows\<close>

lemma insertRow_insort:
  assumes "\<And>a b. a \<in> S \<Longrightarrow> b \<in> S \<Longrightarrow> cmp a b = Some (t b - t a)"
    and "x \<in> S" and "set ys \<subseteq> S"
  shows "insertRow cmp x ys = insort_key (\<lambda>r. - t r) x ys"
  using assms(3)
proof (induction ys)
  case Nil
  then show ?case by simp
next
  case (Cons y ys)
  then have "cmp x y = Some (t y - t x)" using assms(1,2) by simp
  with Cons show ?case by simp
qed

lemma sortRows_sort_key:
  assumes "\<And>a b. a \<in> S \<Longrightarrow> b \<in> S \<Longrightarrow> cmp a b = Some (t b - t a)"
    and "set xs \<subseteq> S"
  shows "sortRows cmp xs = sort_key (\<lambda>r. - t r) xs"
  using assms(2)
proof (induction xs)
  case Nil
  then show ?case by (simp add: sortRows_def)
next
  case (Cons x xs)
  then have IH: "sortRows cmp xs = sort_key (\<lambda>r. - t r) xs" and x: "x \<in> S"
    and xs: "set (sort_key (\<lambda>r. - t r) xs) \<subseteq> S"
    by simp_all
  have "sortRows cmp (x # xs) = insertRow cmp x (sortRows cmp xs)"
    by (simp add: sortRows_def)
  also have "\<dots> = insort_key (\<lambda>r. - t r) x (sort_key (\<lambda>r. - t r) xs)"
    unfolding IH using assms(1) x xs by (rule insertRow_insort)
  finally show ?case by simp
qed

lemma sortRows_sorted:
  assumes "\<And>a b. a \<in> set xs \<Longrightarrow> b \<in> set xs \<Longrightarrow> cmp a b = Some (t b - t a)"
  shows "sorted_wrt (\<lambda>a b. t b \<le> t a) (sortRows cmp xs) \<and> set (sortRows cmp xs) = set xs"
proof -
  have eq: "sortRows cmp xs = sort_key (\<lambda>r. - t r) xs"
    by (rule sortRows_sort_key [where S = "set xs"]) (simp_all add: assms)
  have "sorted (map (\<lambda>r. - t r) (sort_key (\<lambda>r. - t r) xs))"
    by (rule sorted_sort_key)
  then have "sorted_wrt (\<lambda>a b. t b \<le> t a) (sort_key (\<lambda>r. - t r) xs)"
    by (simp add: sorted_map)
  then show ?thesis by (simp add: eq)
qed

lemma pageOf_sorted:
  "sorted_wrt P rows \<Longrightarrow> sorted_wrt P (pageOf page pageSize rows)"
  by (auto simp: pageOf_def Let_def split: option.splits)

lemma pageOf_subset: "set (pageOf page pageSize rows) \<subseteq> set rows"
  by (auto simp: pageOf_def Let_def split: option.splits dest: in_set_takeD in_set_dropD)

lemma page_newestFirst:
  assumes valid: "\<forall>r \<in> set rows. dateTime pf (stamp r) \<noteq> None"
    and cmp: "\<And>a b. a \<in> set rows \<Longrightarrow> b \<in> set rows \<Longrightarrow>
                cmp a b = (case (dateTime pf (stamp b), dateTime pf (stamp a)) of
                             (Some tb, Some ta) \<Rightarrow> Some (tb - ta) | _ \<Rightarrow> None)"
  shows "newestFirst pf stamp (pageOf page pageSize (sortRows cmp rows))"
proof -
  let ?t = "\<lambda>r. the (dateTime pf (stamp r))"
  have c: "cmp a b = Some (?t b - ?t a)" if "a \<in> set rows" "b \<in> set rows" for a b
  proof -
    from valid that have "dateTime pf (stamp a) \<noteq> None" "dateTime pf (stamp b) \<noteq> None"
      by blast+
    then obtain ta tb where "dateTime pf (stamp a) = Some ta"
      and "dateTime pf (stamp b) = Some tb" by blast
    then show ?thesis using that by (simp add: cmp)
  qed
  from sortRows_sorted [of rows cmp ?t, OF c]
  have s: "sorted_wrt (\<lambda>a b. ?t b \<le> ?t a) (sortRows cmp rows)"
    and st: "set (sortRows cmp rows) = set rows" by simp_all
  let ?pg = "pageOf page pageSize (sortRows cmp rows)"
  have pg: "sorted_wrt (\<lambda>a b. ?t b \<le> ?t a) ?pg" using s by (rule pageOf_sorted)
  have sub: "set ?pg \<subseteq> set rows" using pageOf_subset [of page pageSize "sortRows cmp rows"] st by simp
  have "sorted_wrt (\<lambda>a b. case (dateTime pf (stamp a), dateTime pf (stamp b)) of
                          (Some ta, Some tb) \<Rightarrow> tb \<le> ta | _ \<Rightarrow> False) ?pg"
  proof (rule sorted_wrt_mono_rel [OF _ pg])
    fix a b assume ab: "a \<in> set ?pg" "b \<in> set ?pg" and le: "?t b \<le> ?t a"
    from ab sub have "a \<in> set rows" "b \<in> set rows" by blast+
    with valid have "dateTime pf (stamp a) \<noteq> None" "dateTime pf (stamp b) \<noteq> None"
      by blast+
    then obtain ta tb where "dateTime pf (stamp a) = Some ta"
      and "dateTime pf (stamp b) = Some tb" by blast
    with le show "case (dateTime pf (stamp a), dateTime pf (stamp b)) of
                 (Some ta, Some tb) \<Rightarrow> tb \<le> ta | _ \<Rightarrow> False"
      by simp
  qed
  then show ?thesis by (simp add: newestFirst_def)
qed

lemma extractUtmFromUrl_keys:
  "extractUtmFromUrl shop parse u = Inr out \<Longrightarrow> out k \<noteq> None \<Longrightarrow> startsWith k ''utm_''"
proof -
  have e: "emptyUtm k \<noteq> None \<Longrightarrow> startsWith k ''utm_''"
    by (auto simp: emptyUtm_def split: if_splits)
  have a: "\<And>es. assignUtmParams es emptyUtm k \<noteq> None \<Longrightarrow> startsWith k ''utm_''"
    using e assignUtmParams_other [of k _ emptyUtm] by fastforce
  assume "extractUtmFromUrl shop parse u = Inr out" "out k \<noteq> None"
  then show ?thesis
    using e a
    by (auto simp: extractUtmFromUrl_def extractUtmTry_def
             split: if_splits sum.splits option.splits json.splits)
qed


lemma applyAttr_other: "k \<notin> set utmFields \<Longrightarrow> applyAttr n v out k = out k"
  by (simp add: applyAttr_def fold_setIfMatch_absent)

lemma attrsArray_other:
  "attrsArray val as out = Inr out' \<Longrightarrow> k \<notin> set utmFields \<Longrightarrow> out' k = out k"
proof (induction as arbitrary: out)
  case Nil
  then show ?case by simp
next
  case (Cons a as)
  from Cons.prems(1) obtain s where
    step: "attrsArray val as (if val (jget a ''value'') = [] then out
                              else applyAttr (toLowerCase s) (val (jget a ''value'')) out) = Inr out'"
    by (auto simp: Let_def split: if_splits option.splits json.splits)
  from Cons.IH [OF step Cons.prems(2)] show ?case
    using Cons.prems(2) by (simp add: applyAttr_other split: if_splits)
qed

lemma attrsObject_other: "k \<notin> set utmFields \<Longrightarrow> attrsObject kvs out k = out k"
  by (induction kvs arbitrary: out) (auto simp: Let_def applyAttr_other)

lemma extractUtmFromAttributes_keys:
  assumes "extractUtmFromAttributes attrs = Inr out" and "k \<notin> set utmFields"
  shows "out k = None"
proof -
  have e: "emptyUtm k = None"
    using assms(2) by (auto simp: emptyUtm_def utmFields_def)
  show ?thesis
    using assms e attrsArray_other [of attrValue _ emptyUtm out k] attrsObject_other [of k _ emptyUtm]
    by (auto simp: extractUtmFromAttributes_def extractUtmFromAttributesWith_def
             split: if_splits option.splits json.splits)
qed

lemma restRow_created_at:
  assumes "restRow pf ord = Inr r"
  shows "r ''created_at'' = jget ord ''created_at''"
proof -
  from assms obtain landingU noteU where
    l: "extractUtmFromUrl (SHOP pf) (parseURL pf) (jget ord ''landing_site'') = Inr landingU"
    and n: "extractUtmFromAttributes (orJ (jget ord ''note_attributes'') (jget ord ''attributes''))
              = Inr noteU"
    and r: "r = spreadUtm (landingU ++ noteU)
                  (setProp ''created_at'' (jget ord ''created_at'')
                    (setProp ''order_number''
                       (Some (orElse (orJ (jget ord ''order_number'') (jget ord ''name'')) (JStr [])))
                      (setProp ''id'' (jget ord ''id'') Map.empty)))"
    by (auto simp: restRow_def split: if_splits sum.splits)
  have "landingU ''created_at'' = None"
  proof (rule ccontr)
    assume "landingU ''created_at'' \<noteq> None"
    with l have "startsWith ''created_at'' ''utm_''" by (rule extractUtmFromUrl_keys)
    then show False by simp
  qed
  moreover have "noteU ''created_at'' = None"
    using extractUtmFromAttributes_keys [OF n, of "''created_at''"] by (simp add: utmFields_def)
  ultimately show ?thesis
    by (simp add: r spreadUtm_def setProp_def map_add_def split: option.splits)
qed

text \<open>
  C8. The page of rows that \<open>/api/orders\<close> returns is newest first by the upstream
  timestamp of the orders, provided the timestamps are valid dates. The handler in
  server.js compares the rows by \<open>created_at\<close>, which in its rows is the timestamp as
  the upstream gave it; the revision that renders \<open>created_at\<close> for display keeps the
  upstream timestamp in \<open>created_at_raw\<close> and compares by that. No revision compares
  by a display string.
\<close>

theorem ordersPage_newest_first:
  "(fetchAllOrdersREST pf a b cap = Some (reqs, Inr rows)
      \<and> list_all (\<lambda>r. dateTime pf (r ''created_at'') \<noteq> None) rows \<longrightarrow>
      ordersHandler pf a b cap page pageSize = Some (Inr (ordersPage pf page pageSize rows))
      \<and> newestFirst pf (\<lambda>r. r ''created_at'') (ordersPage pf page pageSize rows))
   \<and> (list_all (\<lambda>r. truthy (r ''created_at_raw'') \<and> dateTime pf (r ''created_at_raw'') \<noteq> None) rows'
        \<longrightarrow> newestFirst pf (\<lambda>r. r ''created_at_raw'') (ordersPageRaw pf page pageSize rows'))
   \<and> (restRow pf ord = Inr r \<longrightarrow> r ''created_at'' = jget ord ''created_at'')"
proof (intro conjI impI)
  assume h: "fetchAllOrdersREST pf a b cap = Some (reqs, Inr rows)
             \<and> list_all (\<lambda>r. dateTime pf (r ''created_at'') \<noteq> None) rows"
  then show "ordersHandler pf a b cap page pageSize = Some (Inr (ordersPage pf page pageSize rows))"
    by (simp add: ordersHandler_def)
  from h have valid: "\<forall>r \<in> set rows. dateTime pf (r ''created_at'') \<noteq> None"
    by (simp add: list_all_iff)
  show "newestFirst pf (\<lambda>r. r ''created_at'') (ordersPage pf page pageSize rows)"
    unfolding ordersPage_def
    by (rule page_newestFirst [OF valid]) (simp add: createdAtCmp_def)
next
  assume "list_all (\<lambda>r. truthy (r ''created_at_raw'') \<and> dateTime pf (r ''created_at_raw'') \<noteq> None) rows'"
  then have raw: "\<forall>r \<in> set rows'. truthy (r ''created_at_raw'')"
    and valid: "\<forall>r \<in> set rows'. dateTime pf (r ''created_at_raw'') \<noteq> None"
    by (simp_all add: list_all_iff)
  show "newestFirst pf (\<lambda>r. r ''created_at_raw'') (ordersPageRaw pf page pageSize rows')"
    unfolding ordersPageRaw_def
    by (rule page_newestFirst [OF valid]) (use raw in \<open>simp add: createdAtRawCmp_def orJ_def\<close>)
next
  assume "restRow pf ord = Inr r"
  then show "r ''created_at'' = jget ord ''created_at''" by (rule restRow_created_at)
qed


theorem ordersPage_newest_first_witness:
  "(\<exists>pg. ordersHandler (examplePlatform\<lparr>dateTime := exampleDateTime, fetch := exampleFetch\<rparr>)
            ''x'' ''y'' 10 (Some 1) (Some 100) = Some (Inr pg)
         \<and> newestFirst (examplePlatform\<lparr>dateTime := exampleDateTime, fetch := exampleFetch\<rparr>)
              (\<lambda>r. r ''created_at'') pg
         \<and> map (\<lambda>r. r ''created_at'') pg
             = [Some (JStr ''2025-01-03T03:04:05Z''), Some (JStr ''2025-01-02T03:04:05Z'')])
   \<and> newestFirst (examplePlatform\<lparr>dateTime := exampleDateTime, fetch := exampleFetch\<rparr>)
        (\<lambda>r. r ''created_at_raw'')
        (ordersPageRaw (examplePlatform\<lparr>dateTime := exampleDateTime, fetch := exampleFetch\<rparr>)
           (Some 1) (Some 100)
           [[''created_at'' \<mapsto> JStr ''2025-01-02 08:34:05'',
             ''created_at_raw'' \<mapsto> JStr ''2025-01-02T03:04:05Z''],
            [''created_at'' \<mapsto> JStr ''2025-01-03 08:34:05'',
             ''created_at_raw'' \<mapsto> JStr ''2025-01-03T03:04:05Z'']])"
proof -
  let ?pf = "examplePlatform\<lparr>dateTime := exampleDateTime, fetch := exampleFetch\<rparr>"
  let ?t1 = "Some (JStr ''2025-01-02T03:04:05Z'')"
  let ?t2 = "Some (JStr ''2025-01-03T03:04:05Z'')"
  let ?raws = "[[''created_at'' \<mapsto> JStr ''2025-01-02 08:34:05'',
                 ''created_at_raw'' \<mapsto> JStr ''2025-01-02T03:04:05Z''],
                [''created_at'' \<mapsto> JStr ''2025-01-03 08:34:05'',
                 ''created_at_raw'' \<mapsto> JStr ''2025-01-03T03:04:05Z'']]"
  have d: "dateTime ?pf = exampleDateTime" by simp
  have nxt: "nextUrl (Some (''<'' @ examplePage2Url @ ''>; '' @ relNext)) = Some examplePage2Url"
    by (simp add: nextUrl_def examplePage2Url_def relNext_def dq_def)
  have last: "nextUrl None = None" by (simp add: nextUrl_def)
  obtain r1 where r1: "restRow ?pf exampleOrder = Inr r1"
    by (simp add: restRow_def example_simps)
  obtain r2 where r2: "restRow ?pf exampleLandingOrder = Inr r2"
    by (simp add: restRow_def example_simps)
  have page2: "ordersUrl ?pf ''x'' ''y'' \<noteq> examplePage2Url"
    by (simp add: ordersUrl_def examplePlatform_def examplePage2Url_def)
  have f: "fetchAllOrdersREST ?pf ''x'' ''y'' 10
             = Some ([ordersUrl ?pf ''x'' ''y'', examplePage2Url], Inr [r1, r2])"
    using r1 r2 nxt last page2
    by (simp add: fetchAllOrdersREST_def missingEnv_def examplePlatform_def fetchLoop.simps
          fetchPage_def pushPage_def andGet_def exampleFetch_def okResponse_def
          ordersUrl_def examplePage2Url_def)
  note t = ordersPage_newest_first
             [of ?pf "''x''" "''y''" 10 "[ordersUrl ?pf ''x'' ''y'', examplePage2Url]" "[r1, r2]"
                 "Some 1" "Some 100" ?raws exampleOrder r1]
  note u = ordersPage_newest_first
             [of ?pf "''x''" "''y''" 10 "[ordersUrl ?pf ''x'' ''y'', examplePage2Url]" "[r1, r2]"
                 "Some 1" "Some 100" ?raws exampleLandingOrder r2]
  have c1: "r1 ''created_at'' = ?t1"
    using t [THEN conjunct2, THEN conjunct2] r1 by (simp add: exampleOrder_def)
  have c2: "r2 ''created_at'' = ?t2"
    using u [THEN conjunct2, THEN conjunct2] r2 by (simp add: exampleLandingOrder_def)
  have valid: "list_all (\<lambda>r. dateTime ?pf (r ''created_at'') \<noteq> None) [r1, r2]"
    by (simp add: c1 c2 exampleDateTime_def)
  from t [THEN conjunct1] f valid
  have h: "ordersHandler ?pf ''x'' ''y'' 10 (Some 1) (Some 100)
             = Some (Inr (ordersPage ?pf (Some 1) (Some 100) [r1, r2]))"
    and n: "newestFirst ?pf (\<lambda>r. r ''created_at'') (ordersPage ?pf (Some 1) (Some 100) [r1, r2])"
    by blast+
  have pg: "ordersPage ?pf (Some 1) (Some 100) [r1, r2] = [r2, r1]"
    by (simp add: ordersPage_def pageOf_def sortRows_def createdAtCmp_def c1 c2 exampleDateTime_def)
  have first: "\<exists>pg. ordersHandler ?pf ''x'' ''y'' 10 (Some 1) (Some 100) = Some (Inr pg)
         \<and> newestFirst ?pf (\<lambda>r. r ''created_at'') pg
         \<and> map (\<lambda>r. r ''created_at'') pg = [?t2, ?t1]"
    using h n by (intro exI [of _ "[r2, r1]"]) (simp add: pg c1 c2)
  have "list_all (\<lambda>r. truthy (r ''created_at_raw'') \<and> dateTime ?pf (r ''created_at_raw'') \<noteq> None) ?raws"
    by (simp add: exampleDateTime_def)
  with t [THEN conjunct2, THEN conjunct1]
  have second: "newestFirst ?pf (\<lambda>r. r ''created_at_raw'') (ordersPageRaw ?pf (Some 1) (Some 100) ?raws)"
    by blast
  from first second show ?thesis by blast
qed

end
